theory Spec2Isabelle
  imports Main "HOL-Library.AList" "HOL-Library.Sublist" "HOL-Library.Char_ord"
    "HOL-Library.List_Lexorder"
begin

section \<open>Presentation Exchange: the matching core of pkg/doc/presexch/definition.go\<close>

text \<open>
  A shallow embedding of the requirement tree builder, the requirement evaluator, the
  field, format and schema filters, the predicate reshaper and the submission assembler.
  Go strings are byte strings (\<open>string\<close>), Go \<open>int\<close> values that the code only compares
  are \<open>int\<close>, lengths are \<open>nat\<close>, a nil pointer is \<open>None\<close>, a Go error result is the
  left summand of a sum, and a Go map is an association list read with \<open>map_of\<close> and
  written with \<open>AList.update\<close> (so that its keys stay distinct and \<open>length\<close> is \<open>len\<close>).
\<close>

subsection \<open>Constants and string helpers\<close>

definition All_rule :: string where
  "All_rule = ''all''"

definition Pick_rule :: string where
  "Pick_rule = ''pick''"


definition Preferred :: string where
  "Preferred = ''preferred''"

definition tmpEnding :: string where
  "tmpEnding = ''tmp_unique_id_''"


definition FormatJWT :: string where
  "FormatJWT = ''jwt''"

definition FormatJWTVC :: string where
  "FormatJWTVC = ''jwt_vc''"

definition FormatJWTVP :: string where
  "FormatJWTVP = ''jwt_vp''"

definition FormatLDP :: string where
  "FormatLDP = ''ldp''"

definition FormatLDPVC :: string where
  "FormatLDPVC = ''ldp_vc''"

definition FormatLDPVP :: string where
  "FormatLDPVP = ''ldp_vp''"

text \<open>\<open>strings.Index\<close>: the position of the first occurrence of \<open>sep\<close>, \<open>None\<close> for -1.\<close>

fun strIndex :: "string \<Rightarrow> string \<Rightarrow> nat option" where
  "strIndex [] sep = (if sep = [] then Some 0 else None)"
| "strIndex (c # cs) sep =
     (if prefix sep (c # cs) then Some 0 else map_option Suc (strIndex cs sep))"

text \<open>\<open>strings.Contains\<close>.\<close>

definition strContains :: "string \<Rightarrow> string \<Rightarrow> bool" where
  "strContains s sub = (strIndex s sub \<noteq> None)"

text \<open>\<open>strings.Join\<close> with the separator \<open>"."\<close>.\<close>

fun joinDot :: "string list \<Rightarrow> string" where
  "joinDot [] = []"
| "joinDot [x] = x"
| "joinDot (x # y # ys) = x @ ''.'' @ joinDot (y # ys)"

text \<open>\<open>fmt.Sprintf("%d", n)\<close> for a non-negative \<open>n\<close>.\<close>

definition digit :: "nat \<Rightarrow> char" where
  "digit d = char_of (48 + d)"

fun showNat :: "nat \<Rightarrow> string" where
  "showNat n = (if n < 10 then [digit n] else showNat (n div 10) @ [digit (n mod 10)])"

declare showNat.simps [simp del]

definition showInt :: "int \<Rightarrow> string" where
  "showInt i = (if i < 0 then ''-'' @ showNat (nat (- i)) else showNat (nat i))"


text \<open>\<open>contains\<close>: membership of a string in a slice.\<close>

fun contains :: "string list \<Rightarrow> string \<Rightarrow> bool" where
  "contains [] e = False"
| "contains (el # data) e = (if el = e then True else contains data e)"

subsection \<open>Errors and JSON values\<close>

datatype error =
    ErrNoCredentials
  | ErrPathNotApplicable
  | ErrNoDescriptors string
  | ErrOther string
  | ErrWrap string error

text \<open>\<open>errors.Is\<close>: the target is the error itself or is wrapped in it (\<open>%w\<close>).\<close>

fun errorsIs :: "error \<Rightarrow> error \<Rightarrow> bool" where
  "errorsIs (ErrWrap msg e) target = (ErrWrap msg e = target \<or> errorsIs e target)"
| "errorsIs e target = (e = target)"

text \<open>A Go \<open>interface{}\<close> holding decoded JSON.\<close>

datatype json =
    JNull
  | JBool bool
  | JNum int
  | JStr string
  | JArr "json list"
  | JObj "(string \<times> json) list"

subsection \<open>The data model\<close>

record JwtType =
  jt_Alg :: "string list"

record LdpType =
  lt_ProofType :: "string list"

record Format =
  fmt_Jwt :: "JwtType option"
  fmt_JwtVC :: "JwtType option"
  fmt_JwtVP :: "JwtType option"
  fmt_Ldp :: "LdpType option"
  fmt_LdpVC :: "LdpType option"
  fmt_LdpVP :: "LdpType option"

record Schema =
  sc_URI :: string
  sc_Required :: bool

record Field =
  f_Path :: "string list"
  f_ID :: string
  f_Purpose :: string
  f_Filter :: "json option"
  f_Predicate :: "string option"
  f_IntentToRetain :: bool

record Constraints =
  cs_LimitDisclosure :: "string option"
  cs_SubjectIsIssuer :: "string option"
  cs_Fields :: "Field list"

record InputDescriptor =
  id_ID :: string
  id_Group :: "string list"
  id_Name :: string
  id_Purpose :: string
  id_Schema :: "Schema list option"
  id_Constraints :: "Constraints option"
  id_Format :: "Format option"

datatype SubmissionRequirement =
  SubmissionRequirement
    (sr_Name: string) (sr_Purpose: string) (sr_Rule: string)
    (sr_Count: int) (sr_Min: int) (sr_Max: int)
    (sr_From: string) (sr_FromNested: "SubmissionRequirement list")

datatype requirement =
  Requirement
    (req_Name: string) (req_Purpose: string) (req_Rule: string)
    (req_Count: int) (req_Min: int) (req_Max: int)
    (req_InputDescriptors: "InputDescriptor list") (req_Nested: "requirement list")

text \<open>A \<open>verifiable.Credential\<close>, with the fields that the functions below read or write.\<close>

record Credential =
  vc_ID :: string
  vc_Context :: "string list"
  vc_Types :: "string list"
  vc_JWT :: string
  vc_Proofs :: "(string \<times> json) list list"
  vc_SDJWTHashAlg :: string

subsection \<open>Requirement tree builder\<close>

definition isLenApplicable :: "requirement \<Rightarrow> int \<Rightarrow> bool" where
  "isLenApplicable r val =
     (if req_Count r > 0 \<and> val \<noteq> req_Count r then False
      else if req_Min r > 0 \<and> req_Min r > val then False
      else if req_Max r > 0 \<and> req_Max r < val then False
      else True)"

fun toRequirement :: "SubmissionRequirement \<Rightarrow> InputDescriptor list \<Rightarrow> error + requirement"
  and toRequirements ::
    "SubmissionRequirement list \<Rightarrow> InputDescriptor list \<Rightarrow> requirement list
       \<Rightarrow> error + requirement list"
where
  "toRequirement (SubmissionRequirement name purpose rule cnt mn mx from fromNested) descriptors =
     (if from \<noteq> [] then
        (let inputDescriptors = filter (\<lambda>d. contains (id_Group d) from) descriptors;
             totalCount = length inputDescriptors
         in if totalCount = 0 then Inl (ErrNoDescriptors from)
            else Inr (Requirement name purpose rule
                        (if rule = All_rule then int totalCount else cnt) mn mx
                        inputDescriptors []))
      else
        (case toRequirements fromNested descriptors [] of
           Inl e \<Rightarrow> Inl e
         | Inr nested \<Rightarrow>
             Inr (Requirement name purpose rule
                    (if rule = All_rule then int (length nested) else cnt) mn mx
                    [] nested)))"
| "toRequirements [] descriptors nested = Inr nested"
| "toRequirements (sReq # rest) descriptors nested =
     (case toRequirement sReq descriptors of
        Inl e \<Rightarrow> Inl e
      | Inr req \<Rightarrow> toRequirements rest descriptors (nested @ [req]))"

text \<open>
  \<open>makeRequirement\<close> (the Create-Presentation path). The struct literals of the source
  name only \<open>Count\<close>, \<open>InputDescriptors\<close> and \<open>Nested\<close>; every other field keeps Go's
  zero value, the empty string for \<open>Rule\<close>.
\<close>

definition makeRequirement ::
  "SubmissionRequirement list \<Rightarrow> InputDescriptor list \<Rightarrow> error + requirement" where
  "makeRequirement requirements descriptors =
     (if length requirements = 0 then
        Inr (Requirement [] [] [] (int (length descriptors)) 0 0 descriptors [])
      else
        (case toRequirements requirements descriptors [] of
           Inl e \<Rightarrow> Inl e
         | Inr nested \<Rightarrow>
             Inr (Requirement [] [] [] (int (length requirements)) 0 0 [] nested)))"

text \<open>\<open>makeRequirementsForMatch\<close> (the Match-Requirements path).\<close>

definition makeRequirementsForMatch ::
  "SubmissionRequirement list \<Rightarrow> InputDescriptor list \<Rightarrow> error + requirement list" where
  "makeRequirementsForMatch requirements descriptors =
     (if length requirements = 0 then
        Inr [Requirement [] [] All_rule (int (length descriptors)) 0 0 descriptors []]
      else toRequirements requirements descriptors [])"

subsection \<open>Transient credential ids\<close>

text \<open>
  \<open>tmpID\<close> appends the marker and a fresh UUID; the UUID text is the argument \<open>uuid\<close>.
\<close>

definition tmpID :: "string \<Rightarrow> string \<Rightarrow> string" where
  "tmpID ident uuid = ident @ tmpEnding @ uuid"

definition trimTmpID :: "string \<Rightarrow> string" where
  "trimTmpID ident =
     (case strIndex ident tmpEnding of None \<Rightarrow> ident | Some idx \<Rightarrow> take idx ident)"

subsection \<open>Requirement evaluator\<close>

text \<open>
  The per-descriptor pipeline \<open>filterCredentialsThatMatchDescriptor\<close> is the parameter
  \<open>flt\<close>: within one call the definition, the credentials and the loader are fixed, so
  it depends on the descriptor and on the state \<open>'st\<close> that it threads (the UUID source
  and the loader). It returns the format tag and the filtered credentials, or an error.
\<close>

type_synonym result = "(string \<times> Credential list) list"

type_synonym credset = "(string \<times> (string \<times> string) list) list"

type_synonym 'st pipeline =
  "'st \<Rightarrow> InputDescriptor \<Rightarrow> (error + string \<times> Credential list) \<times> 'st"

text \<open>The first loop of \<open>applyRequirement\<close>, over \<open>req.InputDescriptors\<close>.\<close>

fun applyDescriptors ::
  "'st pipeline \<Rightarrow> 'st \<Rightarrow> InputDescriptor list \<Rightarrow> string \<Rightarrow> result
     \<Rightarrow> (error + string \<times> result) \<times> 'st" where
  "applyDescriptors flt st [] vpFormat res = (Inr (vpFormat, res), st)"
| "applyDescriptors flt st (descriptor # rest) vpFormat res =
     (case flt st descriptor of
        (Inl e, st') \<Rightarrow> (Inl e, st')
      | (Inr (descFormat, filtered), st') \<Rightarrow>
          applyDescriptors flt st' rest
            (if descFormat \<noteq> [] then descFormat else vpFormat)
            (if length filtered \<noteq> 0 then AList.update (id_ID descriptor) filtered res
             else res))"

text \<open>\<open>set[trimTmpID(cred.ID)][desc] = cred.ID\<close> for the credentials of one descriptor.\<close>

fun addCreds :: "string \<Rightarrow> Credential list \<Rightarrow> credset \<Rightarrow> credset" where
  "addCreds desc [] s = s"
| "addCreds desc (cred # creds) s =
     addCreds desc creds
       (AList.update (trimTmpID (vc_ID cred))
          (AList.update desc (vc_ID cred)
             (case map_of s (trimTmpID (vc_ID cred)) of None \<Rightarrow> [] | Some m \<Rightarrow> m))
          s)"

fun addResult :: "result \<Rightarrow> credset \<Rightarrow> credset" where
  "addResult [] s = s"
| "addResult ((desc, credentials) # res) s = addResult res (addCreds desc credentials s)"

text \<open>The keys \<open>desc+cID\<close> of the \<open>exclude\<close> set.\<close>

definition excludeOf :: "requirement \<Rightarrow> credset \<Rightarrow> string list" where
  "excludeOf req s =
     concat (map (\<lambda>(k, m).
       if \<not> isLenApplicable req (int (length m)) then map (\<lambda>(desc, cID). desc @ cID) m
       else []) s)"

text \<open>\<open>mergeNestedResult\<close>: the two inner loops, the loop over one map, the outer loop.\<close>

fun mergeExisting ::
  "Credential list \<Rightarrow> Credential list \<times> string list \<Rightarrow> Credential list \<times> string list" where
  "mergeExisting [] (merged, seen) = (merged, seen)"
| "mergeExisting (credential # cs) (merged, seen) =
     (if vc_ID credential \<notin> set seen
      then mergeExisting cs (merged @ [credential], vc_ID credential # seen)
      else mergeExisting cs (merged, seen))"

fun mergeIncoming ::
  "string \<Rightarrow> string list \<Rightarrow> Credential list \<Rightarrow> Credential list \<times> string list
     \<Rightarrow> Credential list \<times> string list" where
  "mergeIncoming key exclude [] (merged, seen) = (merged, seen)"
| "mergeIncoming key exclude (credential # cs) (merged, seen) =
     (if vc_ID credential \<notin> set seen then
        (if key @ vc_ID credential \<notin> set exclude
         then mergeIncoming key exclude cs (merged @ [credential], vc_ID credential # seen)
         else mergeIncoming key exclude cs (merged, seen))
      else mergeIncoming key exclude cs (merged, seen))"

fun mergeOne :: "string list \<Rightarrow> result \<Rightarrow> result \<Rightarrow> result" where
  "mergeOne exclude [] acc = acc"
| "mergeOne exclude ((key, credentials) # res) acc =
     mergeOne exclude res
       (AList.update key
          (fst (mergeIncoming key exclude credentials
                  (mergeExisting (case map_of acc key of None \<Rightarrow> [] | Some cs \<Rightarrow> cs) ([], []))))
          acc)"

definition mergeNestedResult :: "result list \<Rightarrow> string list \<Rightarrow> result" where
  "mergeNestedResult nr exclude = fold (mergeOne exclude) nr []"

text \<open>
  \<open>applyRequirement\<close>, with its loop over \<open>req.Nested\<close> as \<open>applyNested\<close>; the loop state
  is \<open>(vpFormat, nestedResult, set)\<close>.
\<close>

fun applyRequirement ::
    "'st pipeline \<Rightarrow> 'st \<Rightarrow> requirement \<Rightarrow> (error + string \<times> result) \<times> 'st"
  and applyNested ::
    "'st pipeline \<Rightarrow> 'st \<Rightarrow> requirement list \<Rightarrow> string \<times> result list \<times> credset
       \<Rightarrow> (error + string \<times> result list \<times> credset) \<times> 'st"
where
  "applyRequirement flt st (Requirement name purpose rule cnt mn mx descriptors nested) =
     (case applyDescriptors flt st descriptors FormatLDPVP [] of
        (Inl e, st1) \<Rightarrow> (Inl e, st1)
      | (Inr (vpFormat, res), st1) \<Rightarrow>
          if length descriptors \<noteq> 0 then
            (if isLenApplicable (Requirement name purpose rule cnt mn mx descriptors nested)
                  (int (length res))
             then (Inr (vpFormat, res), st1)
             else (Inl ErrNoCredentials, st1))
          else
            (case applyNested flt st1 nested (vpFormat, [], []) of
               (Inl e, st2) \<Rightarrow> (Inl e, st2)
             | (Inr (vpFormat', nestedResult, s), st2) \<Rightarrow>
                 (Inr (vpFormat',
                       mergeNestedResult nestedResult
                         (excludeOf (Requirement name purpose rule cnt mn mx descriptors nested) s)),
                  st2)))"
| "applyNested flt st [] acc = (Inr acc, st)"
| "applyNested flt st (r # rs) acc =
     (case applyRequirement flt st r of
        (Inl e, st') \<Rightarrow>
          if errorsIs e ErrNoCredentials then applyNested flt st' rs acc else (Inl e, st')
      | (Inr (vpFmt, res), st') \<Rightarrow>
          applyNested flt st' rs
            (if length res \<noteq> 0 then vpFmt else fst acc,
             if length res \<noteq> 0 then fst (snd acc) @ [res] else fst (snd acc),
             addResult res (snd (snd acc))))"

subsection \<open>Submission assembler\<close>

text \<open>
  \<open>merge\<close> receives pointers and assigns to \<open>credential.ID\<close>, so credentials are addresses
  into a store here, and the store is returned with the result.
\<close>

type_synonym addr = nat

type_synonym store = "addr \<Rightarrow> Credential"

datatype InputDescriptorMapping =
  InputDescriptorMapping
    (im_ID: string) (im_Format: string) (im_Path: string)
    (im_PathNested: "InputDescriptorMapping option")

record mergeState =
  ms_setOfCreds :: "(string \<times> nat) list"
  ms_result :: "addr list"
  ms_descriptors :: "InputDescriptorMapping list"
  ms_store :: store

text \<open>A read of a \<open>map[string]int\<close>: the zero value for a missing key.\<close>

definition lookupInt :: "(string \<times> nat) list \<Rightarrow> string \<Rightarrow> nat" where
  "lookupInt m k = (case map_of m k of None \<Rightarrow> 0 | Some v \<Rightarrow> v)"

text \<open>
  The body of the inner loop of \<open>merge\<close>. Nothing ever writes \<open>setOfDescriptors\<close>, so its
  lookup always misses and a descriptor mapping is appended for every credential.
\<close>

definition mergeCredential :: "string \<Rightarrow> string \<Rightarrow> addr \<Rightarrow> mergeState \<Rightarrow> mergeState" where
  "mergeCredential presentationFormat descriptorID credential st =
     (let st1 =
            (if map_of (ms_setOfCreds st) (vc_ID (ms_store st credential)) = None then
               (let newID = trimTmpID (vc_ID (ms_store st credential))
                in st\<lparr>ms_store := (ms_store st)
                          (credential := (ms_store st credential)\<lparr>vc_ID := newID\<rparr>),
                      ms_result := ms_result st @ [credential],
                      ms_setOfCreds :=
                        AList.update newID (length (ms_descriptors st)) (ms_setOfCreds st)\<rparr>)
             else st);
          cred = ms_store st1 credential;
          vcFormat = (if vc_JWT cred \<noteq> [] then FormatJWTVC else FormatLDPVC)
      in st1\<lparr>ms_descriptors := ms_descriptors st1 @
           [InputDescriptorMapping descriptorID presentationFormat ''$''
              (Some (InputDescriptorMapping descriptorID vcFormat
                 (''$.verifiableCredential['' @
                    showNat (lookupInt (ms_setOfCreds st1) (vc_ID cred)) @ '']'')
                 None))]\<rparr>)"

fun mergeCredentials :: "string \<Rightarrow> string \<Rightarrow> addr list \<Rightarrow> mergeState \<Rightarrow> mergeState" where
  "mergeCredentials presentationFormat descriptorID [] st = st"
| "mergeCredentials presentationFormat descriptorID (credential # rest) st =
     mergeCredentials presentationFormat descriptorID rest
       (mergeCredential presentationFormat descriptorID credential st)"

fun mergeKeys ::
  "string \<Rightarrow> (string \<times> addr list) list \<Rightarrow> string list \<Rightarrow> mergeState \<Rightarrow> mergeState" where
  "mergeKeys presentationFormat setOfCredentials [] st = st"
| "mergeKeys presentationFormat setOfCredentials (descriptorID # keys) st =
     mergeKeys presentationFormat setOfCredentials keys
       (mergeCredentials presentationFormat descriptorID
          (case map_of setOfCredentials descriptorID of None \<Rightarrow> [] | Some cs \<Rightarrow> cs) st)"

text \<open>
  \<open>merge\<close>. The keys of the map are sorted bytewise (\<open>sort.Strings\<close>). The mappings are
  appended in that order, so the final \<open>sort.Sort(byID(...))\<close> by descriptor id finds them
  sorted already; it is a stable sort here.
\<close>

definition merge ::
  "string \<Rightarrow> (string \<times> addr list) list \<Rightarrow> store
     \<Rightarrow> addr list \<times> InputDescriptorMapping list \<times> store" where
  "merge presentationFormat setOfCredentials h =
     (let st = mergeKeys presentationFormat setOfCredentials
                 (sort (remdups (map fst setOfCredentials)))
                 \<lparr>ms_setOfCreds = [], ms_result = [], ms_descriptors = [], ms_store = h\<rparr>
      in (ms_result st, sort_key im_ID (ms_descriptors st), ms_store st))"

subsection \<open>Field filter\<close>

text \<open>
  The collaborators of the field filter: \<open>jsonpath.Get\<close>, \<open>json.Marshal\<close> and
  \<open>gojsonschema.Validate\<close> (its result is \<open>result.Valid()\<close>, or its error).
\<close>

record fieldEnv =
  jsonpathGet :: "string \<Rightarrow> json \<Rightarrow> error + json"
  jsonMarshal :: "json \<Rightarrow> error + string"
  schemaValidate :: "json \<Rightarrow> string \<Rightarrow> error + bool"

text \<open>An \<open>error\<close> result is \<open>None\<close> for nil.\<close>

definition validatePatch :: "fieldEnv \<Rightarrow> json option \<Rightarrow> json \<Rightarrow> error option" where
  "validatePatch env schema patch =
     (case schema of
        None \<Rightarrow> None
      | Some sch \<Rightarrow>
          (case jsonMarshal env patch of
             Inl err \<Rightarrow> Some err
           | Inr raw \<Rightarrow>
               (case schemaValidate env sch raw of
                  Inl err \<Rightarrow> Some ErrPathNotApplicable
                | Inr valid \<Rightarrow> if \<not> valid then Some ErrPathNotApplicable else None)))"

fun filterPaths ::
  "fieldEnv \<Rightarrow> json option \<Rightarrow> json \<Rightarrow> string list \<Rightarrow> error option \<Rightarrow> error option" where
  "filterPaths env schema credential [] lastErr = lastErr"
| "filterPaths env schema credential (path # rest) lastErr =
     (case jsonpathGet env path credential of
        Inr patch \<Rightarrow>
          (case validatePatch env schema patch of
             None \<Rightarrow> None
           | Some err \<Rightarrow> filterPaths env schema credential rest (Some err))
      | Inl err \<Rightarrow> filterPaths env schema credential rest (Some ErrPathNotApplicable))"

definition filterField :: "fieldEnv \<Rightarrow> Field \<Rightarrow> json \<Rightarrow> error option" where
  "filterField env f credential = filterPaths env (f_Filter f) credential (f_Path f) None"

subsection \<open>Format filter\<close>

text \<open>
  The collaborators of the format filter: \<open>jwt.Parse\<close> followed by
  \<open>Headers.Algorithm()\<close>, giving \<open>(alg, hasAlg)\<close> or the parse error, and
  \<open>strings.EqualFold\<close>.
\<close>

record formatEnv =
  jwtAlgorithm :: "string \<Rightarrow> error + string \<times> bool"
  equalFold :: "string \<Rightarrow> string \<Rightarrow> bool"

definition hasProofWithType :: "Credential \<Rightarrow> string \<Rightarrow> bool" where
  "hasProofWithType vc proofType =
     list_ex (\<lambda>proof. map_of proof ''type'' = Some (JStr proofType)) (vc_Proofs vc)"


definition algMatch :: "formatEnv \<Rightarrow> string \<Rightarrow> JwtType option \<Rightarrow> bool" where
  "algMatch env credAlg jwtType =
     (case jwtType of
        None \<Rightarrow> False
      | Some jt \<Rightarrow> list_ex (\<lambda>b. equalFold env credAlg b) (jt_Alg jt))"

definition credByProof :: "Credential \<Rightarrow> LdpType option \<Rightarrow> bool" where
  "credByProof c ldp =
     (case ldp of
        None \<Rightarrow> False
      | Some lt \<Rightarrow> list_ex (\<lambda>proofType. hasProofWithType c proofType) (lt_ProofType lt))"

record buckets =
  ldpCreds :: "Credential list"
  ldpvcCreds :: "Credential list"
  ldpvpCreds :: "Credential list"
  jwtCreds :: "Credential list"
  jwtvcCreds :: "Credential list"
  jwtvpCreds :: "Credential list"

definition addLdp :: "Format \<Rightarrow> Credential \<Rightarrow> buckets \<Rightarrow> buckets" where
  "addLdp format credential b =
     (let b1 = (if credByProof credential (fmt_Ldp format)
                then b\<lparr>ldpCreds := ldpCreds b @ [credential]\<rparr> else b);
          b2 = (if credByProof credential (fmt_LdpVC format)
                then b1\<lparr>ldpvcCreds := ldpvcCreds b1 @ [credential]\<rparr> else b1)
      in if credByProof credential (fmt_LdpVP format)
         then b2\<lparr>ldpvpCreds := ldpvpCreds b2 @ [credential]\<rparr> else b2)"

definition addJwt :: "formatEnv \<Rightarrow> Format \<Rightarrow> Credential \<Rightarrow> string \<times> bool \<Rightarrow> buckets \<Rightarrow> buckets" where
  "addJwt env format credential ah b =
     (let alg = fst ah; hasAlg = snd ah;
          b1 = (if hasAlg \<and> algMatch env alg (fmt_Jwt format)
                then b\<lparr>jwtCreds := jwtCreds b @ [credential]\<rparr> else b);
          b2 = (if hasAlg \<and> algMatch env alg (fmt_JwtVC format)
                then b1\<lparr>jwtvcCreds := jwtvcCreds b1 @ [credential]\<rparr> else b1)
      in if hasAlg \<and> algMatch env alg (fmt_JwtVP format)
         then b2\<lparr>jwtvpCreds := jwtvpCreds b2 @ [credential]\<rparr> else b2)"

text \<open>The loop of \<open>filterFormat\<close>; a JWT that does not parse ends the iteration early.\<close>

fun filterFormatLoop :: "formatEnv \<Rightarrow> Format \<Rightarrow> Credential list \<Rightarrow> buckets \<Rightarrow> buckets" where
  "filterFormatLoop env format [] b = b"
| "filterFormatLoop env format (credential # rest) b =
     (let b3 = addLdp format credential b in
      if vc_JWT credential \<noteq> [] then
        (case jwtAlgorithm env (vc_JWT credential) of
           Inl err \<Rightarrow> filterFormatLoop env format rest b3
         | Inr ah \<Rightarrow> filterFormatLoop env format rest (addJwt env format credential ah b3))
      else filterFormatLoop env format rest (addJwt env format credential ([], False) b3))"

definition filterFormat :: "formatEnv \<Rightarrow> Format \<Rightarrow> Credential list \<Rightarrow> string \<times> Credential list" where
  "filterFormat env format credentials =
     (let b = filterFormatLoop env format credentials
                \<lparr>ldpCreds = [], ldpvcCreds = [], ldpvpCreds = [],
                 jwtCreds = [], jwtvcCreds = [], jwtvpCreds = []\<rparr>
      in if length (ldpCreds b) > 0 then (FormatLDP, ldpCreds b)
         else if length (ldpvcCreds b) > 0 then (FormatLDPVC, ldpvcCreds b)
         else if length (ldpvpCreds b) > 0 then (FormatLDPVP, ldpvpCreds b)
         else if length (jwtCreds b) > 0 then (FormatJWT, jwtCreds b)
         else if length (jwtvcCreds b) > 0 then (FormatJWTVC, jwtvcCreds b)
         else if length (jwtvpCreds b) > 0 then (FormatJWTVP, jwtvpCreds b)
         else ([], []))"

subsection \<open>Schema gate\<close>

text \<open>
  The JSON-LD collaborators, over an abstract type \<open>'ctx\<close> of parsed contexts:
  \<open>documentLoader.LoadDocument\<close> (giving \<open>remoteDoc.Document\<close>),
  \<open>ld.NewContext(nil, nil).Parse\<close>, \<open>GetTermDefinition\<close> (\<open>None\<close> for nil),
  \<open>ctxObj.Parse\<close> and \<open>ExpandIri\<close>.
\<close>

record 'ctx schemaEnv =
  loadDocument :: "string \<Rightarrow> error + json"
  newContextParse :: "json \<Rightarrow> error + 'ctx"
  getTermDefinition :: "'ctx \<Rightarrow> string \<Rightarrow> (string \<times> json) list option"
  ctxParse :: "'ctx \<Rightarrow> (string \<times> json) list \<Rightarrow> error + 'ctx"
  expandIri :: "'ctx \<Rightarrow> string \<Rightarrow> error + string"

definition getContext :: "'ctx schemaEnv \<Rightarrow> string \<Rightarrow> error + 'ctx" where
  "getContext env contextURI =
     (case loadDocument env (takeWhile (\<lambda>c. c \<noteq> CHR ''#'') contextURI) of
        Inl err \<Rightarrow> Inl (ErrWrap ''loading document'' err)
      | Inr document \<Rightarrow>
          (case document of
             JObj doc \<Rightarrow>
               (case map_of doc ''@context'' of
                  None \<Rightarrow> Inl (ErrOther ''@context field not found in context'')
                | Some ctx \<Rightarrow> newContextParse env ctx)
           | _ \<Rightarrow> Inl (ErrOther ''expects jsonld document to be unmarshaled into map'')))"

definition typeFoundInContext :: "'ctx schemaEnv \<Rightarrow> string \<Rightarrow> 'ctx \<Rightarrow> error + string list" where
  "typeFoundInContext env typ ctxObj =
     (case getTermDefinition env ctxObj typ of
        None \<Rightarrow> Inr []
      | Some td \<Rightarrow>
          (let ident = (case map_of td ''@id'' of Some (JStr s) \<Rightarrow> s | _ \<Rightarrow> []);
               out = (case map_of td ''@id'' of Some (JStr s) \<Rightarrow> [s] | _ \<Rightarrow> [])
           in case map_of td ''@context'' of
                Some (JObj tdCtx) \<Rightarrow>
                  (case ctxParse env ctxObj tdCtx of
                     Inl err \<Rightarrow> Inl err
                   | Inr extendedCtx \<Rightarrow>
                       (case expandIri env extendedCtx ident of
                          Inl err \<Rightarrow> Inl err
                        | Inr iri \<Rightarrow> Inr (out @ [iri])))
              | _ \<Rightarrow> Inr out))"

text \<open>The loop over \<open>credential.Types\<close>; \<open>schemaSatisfied\<close> is a list read as a set.\<close>

fun typesLoop :: "'ctx schemaEnv \<Rightarrow> 'ctx \<Rightarrow> string list \<Rightarrow> string list \<Rightarrow> string list" where
  "typesLoop env ctxObj [] schemaSatisfied = schemaSatisfied"
| "typesLoop env ctxObj (typ # rest) schemaSatisfied =
     (case typeFoundInContext env typ ctxObj of
        Inl err \<Rightarrow> typesLoop env ctxObj rest schemaSatisfied
      | Inr ids \<Rightarrow> typesLoop env ctxObj rest (schemaSatisfied @ ids))"

text \<open>The loop over \<open>credential.Context\<close>, with the memo \<open>contexts\<close>.\<close>

fun contextsLoop ::
  "'ctx schemaEnv \<Rightarrow> string list \<Rightarrow> string list \<Rightarrow> (string \<times> 'ctx) list \<Rightarrow> string list
     \<Rightarrow> error + (string \<times> 'ctx) list \<times> string list" where
  "contextsLoop env types [] contexts schemaSatisfied = Inr (contexts, schemaSatisfied)"
| "contextsLoop env types (ctx # rest) contexts schemaSatisfied =
     (case map_of contexts ctx of
        Some ctxObj \<Rightarrow>
          contextsLoop env types rest contexts (typesLoop env ctxObj types schemaSatisfied)
      | None \<Rightarrow>
          (case getContext env ctx of
             Inl err \<Rightarrow> Inl err
           | Inr context \<Rightarrow>
               contextsLoop env types rest (AList.update ctx context contexts)
                 (typesLoop env context types schemaSatisfied)))"

text \<open>The loop over the descriptor's schemas, with \<open>break\<close> at an unmatched required one.\<close>

fun schemasLoop :: "string list \<Rightarrow> Schema list \<Rightarrow> bool \<Rightarrow> bool" where
  "schemasLoop schemaSatisfied [] applicable = applicable"
| "schemasLoop schemaSatisfied (schema # rest) applicable =
     (if sc_URI schema \<in> set schemaSatisfied then schemasLoop schemaSatisfied rest True
      else if sc_Required schema then False
      else schemasLoop schemaSatisfied rest applicable)"

fun filterSchemaLoop ::
  "'ctx schemaEnv \<Rightarrow> Schema list \<Rightarrow> Credential list \<Rightarrow> (string \<times> 'ctx) list \<Rightarrow> Credential list
     \<Rightarrow> Credential list" where
  "filterSchemaLoop env schemas [] contexts res = res"
| "filterSchemaLoop env schemas (credential # rest) contexts res =
     (case contextsLoop env (vc_Types credential) (vc_Context credential) contexts [] of
        Inl err \<Rightarrow> []
      | Inr (contexts', schemaSatisfied) \<Rightarrow>
          filterSchemaLoop env schemas rest contexts'
            (if schemasLoop schemaSatisfied schemas False then res @ [credential] else res))"

definition filterSchema :: "'ctx schemaEnv \<Rightarrow> Schema list \<Rightarrow> Credential list \<Rightarrow> Credential list" where
  "filterSchema env schemas credentials = filterSchemaLoop env schemas credentials [] []"

subsection \<open>Predicate reshaping\<close>

text \<open>A key of a JSONPath match: an array index or an object key.\<close>

datatype key = KInt int | KStr string


text \<open>
  \<open>getPath\<close>: the loop state is \<open>(newPath, originalPath, set)\<close>; array indices are
  renumbered in the order of their first appearance under each parent.
\<close>

fun getPathLoop ::
  "key list \<Rightarrow> string list \<times> string list \<times> (string \<times> nat) list
     \<Rightarrow> string list \<times> string list \<times> (string \<times> nat) list" where
  "getPathLoop [] st = st"
| "getPathLoop (KInt v # ks) (newPath, originalPath, s) =
     (let counterKey = joinDot originalPath;
          originalPath' = originalPath @ [showInt v];
          mapperKey = joinDot originalPath';
          s' = (if map_of s mapperKey = None then
                  (let s1 = AList.update mapperKey (lookupInt s counterKey) s
                   in AList.update counterKey (lookupInt s1 counterKey + 1) s1)
                else s)
      in getPathLoop ks (newPath @ [showNat (lookupInt s' mapperKey)], originalPath', s'))"
| "getPathLoop (KStr v # ks) (newPath, originalPath, s) =
     getPathLoop ks (newPath @ [v], originalPath @ [v], s)"

definition getPath ::
  "key list \<Rightarrow> (string \<times> nat) list \<Rightarrow> (string \<times> string) \<times> (string \<times> nat) list" where
  "getPath keys s =
     (case getPathLoop keys ([], [], s) of
        (newPath, originalPath, s') \<Rightarrow> ((joinDot newPath, joinDot originalPath), s'))"













section \<open>Notions used to state the properties\<close>

subsection \<open>Evaluator\<close>

text \<open>
  The first error of the pipeline over a leaf's descriptors, run in order from state \<open>st\<close>;
  \<open>None\<close> when every call returns.
\<close>

fun pipelineError :: "'st pipeline \<Rightarrow> 'st \<Rightarrow> InputDescriptor list \<Rightarrow> error option" where
  "pipelineError flt st [] = None"
| "pipelineError flt st (d # ds) =
     (case flt st d of
        (Inl e, st') \<Rightarrow> Some e
      | (Inr out, st') \<Rightarrow> pipelineError flt st' ds)"

text \<open>
  The ids of the descriptors for which the pipeline returned at least one credential, up
  to the first error.
\<close>

fun matchedIDs :: "'st pipeline \<Rightarrow> 'st \<Rightarrow> InputDescriptor list \<Rightarrow> string list" where
  "matchedIDs flt st [] = []"
| "matchedIDs flt st (d # ds) =
     (case flt st d of
        (Inl e, st') \<Rightarrow> []
      | (Inr out, st') \<Rightarrow>
          (if snd out \<noteq> [] then [id_ID d] else []) @ matchedIDs flt st' ds)"

text \<open>Every child, evaluated in turn, returns the no-credentials error.\<close>

fun childrenAllFail :: "'st pipeline \<Rightarrow> 'st \<Rightarrow> requirement list \<Rightarrow> bool" where
  "childrenAllFail flt st [] = True"
| "childrenAllFail flt st (r # rs) =
     (case applyRequirement flt st r of
        (Inl e, st') \<Rightarrow> errorsIs e ErrNoCredentials \<and> childrenAllFail flt st' rs
      | (Inr out, st') \<Rightarrow> False)"

subsection \<open>Field, format and schema filters\<close>

text \<open>The status that one path of a field records: \<open>None\<close> is applicable.\<close>

definition pathStatus :: "fieldEnv \<Rightarrow> Field \<Rightarrow> json \<Rightarrow> string \<Rightarrow> error option" where
  "pathStatus env f credential path =
     (case jsonpathGet env path credential of
        Inl err \<Rightarrow> Some ErrPathNotApplicable
      | Inr patch \<Rightarrow> validatePatch env (f_Filter f) patch)"

text \<open>A credential belongs to an \<open>ldp*\<close> bucket: some proof has a listed type.\<close>

definition inLdpBucket :: "LdpType option \<Rightarrow> Credential \<Rightarrow> bool" where
  "inLdpBucket ldp c =
     (\<exists>lt. ldp = Some lt \<and>
        (\<exists>proofType \<in> set (lt_ProofType lt). \<exists>proof \<in> set (vc_Proofs c).
           map_of proof ''type'' = Some (JStr proofType)))"

text \<open>
  A credential belongs to a \<open>jwt*\<close> bucket: it has a JWT form whose header carries an
  \<open>alg\<close> that equals a listed one up to case.
\<close>

definition inJwtBucket :: "formatEnv \<Rightarrow> JwtType option \<Rightarrow> Credential \<Rightarrow> bool" where
  "inJwtBucket env jwtType c =
     (vc_JWT c \<noteq> [] \<and>
      (\<exists>jt alg. jwtType = Some jt \<and> jwtAlgorithm env (vc_JWT c) = Inr (alg, True) \<and>
         (\<exists>b \<in> set (jt_Alg jt). equalFold env alg b)))"

definition firstNonEmpty :: "(string \<times> Credential list) list \<Rightarrow> string \<times> Credential list" where
  "firstNonEmpty bs =
     (case filter (\<lambda>(tag, cs). cs \<noteq> []) bs of [] \<Rightarrow> ([], []) | b # rest \<Rightarrow> b)"

text \<open>The type IRIs that one context resolves for one type, and all of a credential's.\<close>

definition typeIRIs :: "'ctx schemaEnv \<Rightarrow> string \<Rightarrow> string \<Rightarrow> string list" where
  "typeIRIs env ctx typ =
     (case getContext env ctx of
        Inl err \<Rightarrow> []
      | Inr ctxObj \<Rightarrow>
          (case typeFoundInContext env typ ctxObj of Inl err \<Rightarrow> [] | Inr ids \<Rightarrow> ids))"

definition resolvedIRIs :: "'ctx schemaEnv \<Rightarrow> Credential \<Rightarrow> string set" where
  "resolvedIRIs env c =
     (\<Union>ctx \<in> set (vc_Context c). \<Union>typ \<in> set (vc_Types c). set (typeIRIs env ctx typ))"

text \<open>Every context of every credential of the call loads.\<close>

definition contextsLoad :: "'ctx schemaEnv \<Rightarrow> Credential list \<Rightarrow> bool" where
  "contextsLoad env credentials =
     (\<forall>c \<in> set credentials. \<forall>ctx \<in> set (vc_Context c).
        \<exists>ctxObj. getContext env ctx = Inr ctxObj)"

text \<open>At least one schema entry matches and no required entry is unmatched.\<close>

definition schemaAccepts :: "'ctx schemaEnv \<Rightarrow> Schema list \<Rightarrow> Credential \<Rightarrow> bool" where
  "schemaAccepts env schemas c =
     ((\<exists>s \<in> set schemas. sc_URI s \<in> resolvedIRIs env c)
      \<and> (\<forall>s \<in> set schemas. sc_Required s \<longrightarrow> sc_URI s \<in> resolvedIRIs env c))"

text \<open>The memo of \<open>filterSchema\<close> holds only contexts that the loader gives.\<close>

definition memoSound :: "'ctx schemaEnv \<Rightarrow> (string \<times> 'ctx) list \<Rightarrow> bool" where
  "memoSound env contexts =
     (\<forall>ctx ctxObj. map_of contexts ctx = Some ctxObj \<longrightarrow> getContext env ctx = Inr ctxObj)"

subsection \<open>Assembler and reshaper\<close>

text \<open>
  The store during \<open>merge\<close>, relative to the store \<open>h\<close> before it: an emitted credential
  has its id trimmed, every other credential is untouched.
\<close>

definition trimmedIn :: "store \<Rightarrow> mergeState \<Rightarrow> bool" where
  "trimmedIn h st =
     ((\<forall>a \<in> set (ms_result st). ms_store st a = (h a)\<lparr>vc_ID := trimTmpID (vc_ID (h a))\<rparr>)
      \<and> (\<forall>a. a \<notin> set (ms_result st) \<longrightarrow> ms_store st a = h a))"

text \<open>
  Every key of \<open>setOfCreds\<close> is the trimmed id of an emitted credential; and a credential
  \<open>a\<close> is emitted for when some emitted credential has the trimmed id of \<open>a\<close>.
\<close>

definition keysEmitted :: "store \<Rightarrow> mergeState \<Rightarrow> bool" where
  "keysEmitted h st =
     (\<forall>k. map_of (ms_setOfCreds st) k \<noteq> None \<longrightarrow>
        (\<exists>b \<in> set (ms_result st). trimTmpID (vc_ID (h b)) = k))"

definition emittedFor :: "store \<Rightarrow> mergeState \<Rightarrow> addr \<Rightarrow> bool" where
  "emittedFor h st a =
     (\<exists>b \<in> set (ms_result st). trimTmpID (vc_ID (h b)) = trimTmpID (vc_ID (h a)))"





section \<open>Example inputs\<close>

subsection \<open>Descriptors, credentials and pipelines\<close>

definition exDescA :: InputDescriptor where
  "exDescA = \<lparr>id_ID = ''a'', id_Group = [''A''], id_Name = [], id_Purpose = [],
              id_Schema = None, id_Constraints = None, id_Format = None\<rparr>"

definition exDescB :: InputDescriptor where
  "exDescB = \<lparr>id_ID = ''b'', id_Group = [''B''], id_Name = [], id_Purpose = [],
              id_Schema = None, id_Constraints = None, id_Format = None\<rparr>"

definition exCred :: "string \<Rightarrow> Credential" where
  "exCred ident = \<lparr>vc_ID = ident, vc_Context = [], vc_Types = [], vc_JWT = [],
                   vc_Proofs = [], vc_SDJWTHashAlg = []\<rparr>"

text \<open>A pipeline in which only descriptor \<open>a\<close> matches a credential; the state counts calls.\<close>

definition exPipeline :: "nat pipeline" where
  "exPipeline st d = (Inr ([], if id_ID d = ''a'' then [exCred ''c1''] else []), Suc st)"

text \<open>A pipeline that fails on every descriptor but \<open>a\<close>.\<close>

definition exPipelineErr :: "nat pipeline" where
  "exPipelineErr st d =
     (if id_ID d = ''a'' then Inr ([], [exCred ''c1''])
      else Inl (ErrWrap ''create new credential'' (ErrOther ''parse'')), Suc st)"

definition exLeaf :: "InputDescriptor list \<Rightarrow> requirement" where
  "exLeaf ds = Requirement [] [] All_rule (int (length ds)) 0 0 ds []"

text \<open>Two credentials in a store, and one whose id carries the transient marker.\<close>

definition exStore :: store where
  "exStore a = exCred (if a = 0 then ''c1'' else if a = 1 then ''c2'' else [])"

definition exTmpStore :: store where
  "exTmpStore a =
     exCred (tmpID (if a = 0 then ''urn:vc:1'' else if a = 1 then ''urn:vc:2'' else ''urn:vc:3'')
               ''3f2a'')"

subsection \<open>Collaborators\<close>

text \<open>A field environment over flat objects whose keys are the path expressions.\<close>

definition exFieldEnv :: fieldEnv where
  "exFieldEnv =
     \<lparr>jsonpathGet = (\<lambda>path cred.
        case cred of
          JObj m \<Rightarrow> (case map_of m path of None \<Rightarrow> Inl (ErrOther ''no match'') | Some v \<Rightarrow> Inr v)
        | _ \<Rightarrow> Inl (ErrOther ''no match'')),
      jsonMarshal = (\<lambda>v. case v of JStr s \<Rightarrow> Inr s | _ \<Rightarrow> Inr ''null''),
      schemaValidate = (\<lambda>sch raw. Inr (sch = JObj [(''const'', JStr raw)]))\<rparr>"

definition exDegreeField :: "string list \<Rightarrow> Field" where
  "exDegreeField paths =
     \<lparr>f_Path = paths, f_ID = [], f_Purpose = [],
      f_Filter = Some (JObj [(''const'', JStr ''BachelorDegree'')]),
      f_Predicate = None, f_IntentToRetain = False\<rparr>"

text \<open>A format environment in which a JWT is the text of its own \<open>alg\<close>.\<close>

definition asciiLower :: "char \<Rightarrow> char" where
  "asciiLower c =
     (if CHR ''A'' \<le> c \<and> c \<le> CHR ''Z'' then char_of (of_char c + (32::nat)) else c)"

definition exFormatEnv :: formatEnv where
  "exFormatEnv =
     \<lparr>jwtAlgorithm = (\<lambda>j. if j = ''garbled'' then Inl (ErrOther ''parse'') else Inr (j, True)),
      equalFold = (\<lambda>a b. map asciiLower a = map asciiLower b)\<rparr>"

definition exCredLdp :: Credential where
  "exCredLdp = (exCred ''ldp'')\<lparr>vc_Proofs := [[(''type'', JStr ''Ed25519Signature2018'')]]\<rparr>"

definition exCredJwt :: Credential where
  "exCredJwt = (exCred ''jwt'')\<lparr>vc_JWT := ''es256''\<rparr>"

definition exFormat :: "LdpType option \<Rightarrow> Format" where
  "exFormat ldpvc =
     \<lparr>fmt_Jwt = None, fmt_JwtVC = Some \<lparr>jt_Alg = [''ES256'']\<rparr>, fmt_JwtVP = None,
      fmt_Ldp = None, fmt_LdpVC = ldpvc, fmt_LdpVP = None\<rparr>"

text \<open>A schema environment with one loadable context that defines one term.\<close>

definition exSchemaEnv :: "(string \<times> (string \<times> json) list) list schemaEnv" where
  "exSchemaEnv =
     \<lparr>loadDocument = (\<lambda>uri.
        if uri = ''https://example.org/ctx''
        then Inr (JObj [(''@context'',
               JObj [(''DegreeCredential'',
                 JObj [(''@id'', JStr ''https://example.org/DegreeCredential'')])])])
        else Inl (ErrOther ''not found'')),
      newContextParse = (\<lambda>j.
        case j of
          JObj m \<Rightarrow> Inr (map (\<lambda>(k, v). (k, case v of JObj td \<Rightarrow> td | _ \<Rightarrow> [])) m)
        | _ \<Rightarrow> Inl (ErrOther ''invalid context'')),
      getTermDefinition = (\<lambda>ctx typ. map_of ctx typ),
      ctxParse = (\<lambda>ctx m. Inr ctx),
      expandIri = (\<lambda>ctx s. Inr s)\<rparr>"

definition exCredDegree :: Credential where
  "exCredDegree = (exCred ''degree'')
     \<lparr>vc_Context := [''https://example.org/ctx#v1''],
      vc_Types := [''VerifiableCredential'', ''DegreeCredential'']\<rparr>"

definition exCredUnknown :: Credential where
  "exCredUnknown = (exCred ''unknown'')\<lparr>vc_Context := [''https://example.org/missing'']\<rparr>"

definition exSchemas :: "Schema list" where
  "exSchemas = [\<lparr>sc_URI = ''https://example.org/DegreeCredential'', sc_Required = True\<rparr>]"









section \<open>Properties\<close>

subsection \<open>Cardinality check\<close>

text \<open>
  C10. A requirement whose \<open>count\<close>, \<open>min\<close> and \<open>max\<close> are all zero accepts every value:
  \<open>isLenApplicable\<close> is true for every \<open>val\<close>, zero included.
\<close>

theorem isLenApplicable_unconstrained:
  "req_Count r = 0 \<Longrightarrow> req_Min r = 0 \<Longrightarrow> req_Max r = 0 \<Longrightarrow> isLenApplicable r val"
  by (simp add: isLenApplicable_def)

theorem isLenApplicable_unconstrained_witness:
  "isLenApplicable (Requirement [] [] Pick_rule 0 0 0 [] []) 0
   \<and> isLenApplicable (Requirement [] [] Pick_rule 0 0 0 [] []) 7"
  using isLenApplicable_unconstrained [of "Requirement [] [] Pick_rule 0 0 0 [] []" 0]
        isLenApplicable_unconstrained [of "Requirement [] [] Pick_rule 0 0 0 [] []" 7]
  by simp

subsection \<open>Requirement tree builder\<close>

text \<open>
  C3, as the code has it. For a definition with no submission requirements both builders
  produce a single requirement without children, whose \<open>count\<close> is the number of input
  descriptors, whose \<open>min\<close> and \<open>max\<close> are zero and which holds every input descriptor.
  The Match-Requirements path sets \<open>rule = all\<close>; the Create-Presentation path leaves the
  rule empty.
\<close>

theorem makeRequirement_default:
  "makeRequirement [] descriptors =
     Inr (Requirement [] [] [] (int (length descriptors)) 0 0 descriptors [])
   \<and> makeRequirementsForMatch [] descriptors =
     Inr [Requirement [] [] All_rule (int (length descriptors)) 0 0 descriptors []]"
  by (simp add: makeRequirement_def makeRequirementsForMatch_def)

theorem makeRequirement_default_witness:
  "makeRequirement [] [exDescA, exDescB] = Inr (Requirement [] [] [] 2 0 0 [exDescA, exDescB] [])
   \<and> makeRequirementsForMatch [] [exDescA, exDescB]
       = Inr [Requirement [] [] All_rule 2 0 0 [exDescA, exDescB] []]"
  using makeRequirement_default [of "[exDescA, exDescB]"] by simp

text \<open>
  C3 as stated fails on the Create-Presentation path: the requirement built for one
  descriptor has the empty rule, not \<open>all\<close>.
\<close>

theorem makeRequirement_rule_counterexample:
  "makeRequirement [] [exDescA] = Inr (Requirement [] [] [] 1 0 0 [exDescA] [])
   \<and> req_Rule (Requirement [] [] [] 1 0 0 [exDescA] []) \<noteq> All_rule"
  by (simp add: makeRequirement_def All_rule_def)

subsection \<open>Leaf evaluation\<close>

lemma applyDescriptors_error:
  "pipelineError flt st ds = Some e \<Longrightarrow> fst (applyDescriptors flt st ds vpFormat res) = Inl e"
proof (induction ds arbitrary: st vpFormat res)
  case Nil
  then show ?case by simp
next
  case (Cons d ds)
  then show ?case
    by (auto split: prod.splits sum.splits)
qed

lemma applyDescriptors_keys:
  "pipelineError flt st ds = None \<Longrightarrow>
   \<exists>vf res' st'. applyDescriptors flt st ds vpFormat res = (Inr (vf, res'), st')
     \<and> set (map fst res') = set (map fst res) \<union> set (matchedIDs flt st ds)
     \<and> (distinct (map fst res) \<longrightarrow> distinct (map fst res'))"
proof (induction ds arbitrary: st vpFormat res)
  case Nil
  then show ?case by simp
next
  case (Cons d ds)
  obtain out st1 where f: "flt st d = (out, st1)" by (cases "flt st d")
  from Cons.prems f obtain df cs where out: "out = Inr (df, cs)"
    by (cases out) auto
  from Cons.prems f out have ps: "pipelineError flt st1 ds = None"
    by simp
  have m: "matchedIDs flt st (d # ds) = (if cs \<noteq> [] then [id_ID d] else []) @ matchedIDs flt st1 ds"
    using f out by simp
  show ?case
    using Cons.IH [OF ps, of "if df \<noteq> [] then df else vpFormat"
        "if length cs \<noteq> 0 then AList.update (id_ID d) cs res else res"]
    using f out m
    by (auto simp: dom_update distinct_update)
qed

text \<open>
  C7, as the code has it. For a leaf requirement (descriptors present) whose pipeline
  returns for every descriptor, evaluation returns the no-credentials error if and only if
  the number of descriptors, counted by id, that matched at least one credential fails the
  cardinality: with \<open>count > 0\<close> it must equal \<open>count\<close>, with \<open>min > 0\<close> it must be at
  least \<open>min\<close>, with \<open>max > 0\<close> at most \<open>max\<close>. When the pipeline fails for a descriptor,
  evaluation returns that error and checks no cardinality.
\<close>

theorem leaf_no_credentials_iff:
  assumes "descriptors \<noteq> []"
  shows "(pipelineError flt st descriptors = None \<longrightarrow>
           (fst (applyRequirement flt st
                   (Requirement name purpose rule cnt mn mx descriptors nested))
              = Inl ErrNoCredentials
            \<longleftrightarrow> \<not> ((cnt > 0 \<longrightarrow> int (length (remdups (matchedIDs flt st descriptors))) = cnt)
                 \<and> (mn > 0 \<longrightarrow> mn \<le> int (length (remdups (matchedIDs flt st descriptors))))
                 \<and> (mx > 0 \<longrightarrow> int (length (remdups (matchedIDs flt st descriptors))) \<le> mx))))
         \<and> (\<forall>e. pipelineError flt st descriptors = Some e \<longrightarrow>
               fst (applyRequirement flt st
                      (Requirement name purpose rule cnt mn mx descriptors nested)) = Inl e)"
proof (intro conjI allI impI)
  assume ok: "pipelineError flt st descriptors = None"
  from applyDescriptors_keys [OF ok, of FormatLDPVP "[]"]
  obtain vf res' st' where
    a: "applyDescriptors flt st descriptors FormatLDPVP [] = (Inr (vf, res'), st')"
    and k: "set (map fst res') = set (matchedIDs flt st descriptors)"
    and d: "distinct (map fst res')"
    by auto
  have "length res' = card (set (map fst res'))"
    using d distinct_card [of "map fst res'"] by simp
  also have "\<dots> = length (remdups (matchedIDs flt st descriptors))"
    using k by (simp add: length_remdups_card_conv)
  finally have len: "length res' = length (remdups (matchedIDs flt st descriptors))" .
  show "fst (applyRequirement flt st (Requirement name purpose rule cnt mn mx descriptors nested))
          = Inl ErrNoCredentials
        \<longleftrightarrow> \<not> ((cnt > 0 \<longrightarrow> int (length (remdups (matchedIDs flt st descriptors))) = cnt)
             \<and> (mn > 0 \<longrightarrow> mn \<le> int (length (remdups (matchedIDs flt st descriptors))))
             \<and> (mx > 0 \<longrightarrow> int (length (remdups (matchedIDs flt st descriptors))) \<le> mx))"
    using assms a len by (auto simp: isLenApplicable_def)
next
  fix e
  assume "pipelineError flt st descriptors = Some e"
  from applyDescriptors_error [OF this, of FormatLDPVP "[]"]
  show "fst (applyRequirement flt st (Requirement name purpose rule cnt mn mx descriptors nested))
          = Inl e"
    by (auto split: prod.splits sum.splits)
qed

theorem leaf_no_credentials_iff_witness:
  "pipelineError exPipeline 0 [exDescA, exDescB] = None
   \<and> length (remdups (matchedIDs exPipeline 0 [exDescA, exDescB])) = 1
   \<and> fst (applyRequirement exPipeline 0 (Requirement [] [] All_rule 2 0 0 [exDescA, exDescB] []))
       = Inl ErrNoCredentials
   \<and> fst (applyRequirement exPipeline 0 (Requirement [] [] Pick_rule 0 1 0 [exDescA, exDescB] []))
       \<noteq> Inl ErrNoCredentials
   \<and> pipelineError exPipelineErr 0 [exDescA, exDescB]
       = Some (ErrWrap ''create new credential'' (ErrOther ''parse''))
   \<and> fst (applyRequirement exPipelineErr 0 (Requirement [] [] All_rule 2 0 0 [exDescA, exDescB] []))
       = Inl (ErrWrap ''create new credential'' (ErrOther ''parse''))"
proof -
  have ne: "[exDescA, exDescB] \<noteq> []" by simp
  have ok: "pipelineError exPipeline 0 [exDescA, exDescB] = None"
    by (simp add: exPipeline_def)
  have n: "length (remdups (matchedIDs exPipeline 0 [exDescA, exDescB])) = 1"
    by (simp add: exPipeline_def exDescA_def exDescB_def)
  have er: "pipelineError exPipelineErr 0 [exDescA, exDescB]
       = Some (ErrWrap ''create new credential'' (ErrOther ''parse''))"
    by (simp add: exPipelineErr_def exDescA_def exDescB_def)
  from leaf_no_credentials_iff [OF ne, of exPipeline 0 "[]" "[]" All_rule 2 0 0 "[]"]
       leaf_no_credentials_iff [OF ne, of exPipeline 0 "[]" "[]" Pick_rule 0 1 0 "[]"]
       leaf_no_credentials_iff [OF ne, of exPipelineErr 0 "[]" "[]" All_rule 2 0 0 "[]"]
       ok n er
  show ?thesis by simp
qed

text \<open>
  C7 as stated fails when the pipeline fails: one of two descriptors matched, so the
  cardinality \<open>count = 2\<close> fails, and evaluation returns the pipeline's error, not the
  no-credentials error.
\<close>

theorem leaf_pipeline_error_counterexample:
  "length (remdups (matchedIDs exPipelineErr 0 [exDescA, exDescB])) = 1
   \<and> fst (applyRequirement exPipelineErr 0 (Requirement [] [] All_rule 2 0 0 [exDescA, exDescB] []))
       = Inl (ErrWrap ''create new credential'' (ErrOther ''parse''))
   \<and> Inl (ErrWrap ''create new credential'' (ErrOther ''parse''))
       \<noteq> (Inl ErrNoCredentials :: error + string \<times> result)"
  by (simp add: exPipelineErr_def exDescA_def exDescB_def)

subsection \<open>Branch evaluation\<close>

lemma applyNested_error:
  "applyNested flt st rs acc = (Inl e, st') \<Longrightarrow> \<not> errorsIs e ErrNoCredentials"
proof (induction rs arbitrary: st acc)
  case Nil
  then show ?case by simp
next
  case (Cons r rs)
  then show ?case
    by (auto split: prod.splits sum.splits if_splits)
qed

lemma applyNested_append:
  "applyNested flt st rs1 acc = (Inr acc1, st1) \<Longrightarrow>
   applyNested flt st (rs1 @ rs2) acc = applyNested flt st1 rs2 acc1"
proof (induction rs1 arbitrary: st acc)
  case Nil
  then show ?case by simp
next
  case (Cons r rs)
  then show ?case
    by (auto split: prod.splits sum.splits if_splits)
qed

lemma applyNested_allFail:
  "childrenAllFail flt st rs \<Longrightarrow> \<exists>st'. applyNested flt st rs acc = (Inr acc, st')"
proof (induction rs arbitrary: st)
  case Nil
  then show ?case by simp
next
  case (Cons r rs)
  then show ?case
    by (auto split: prod.splits sum.splits if_splits)
qed

lemma applyRequirement_branch:
  "applyRequirement flt st (Requirement name purpose rule cnt mn mx [] nested) =
     (case applyNested flt st nested (FormatLDPVP, [], []) of
        (Inl e, st2) \<Rightarrow> (Inl e, st2)
      | (Inr (vpFormat', nestedResult, s), st2) \<Rightarrow>
          (Inr (vpFormat', mergeNestedResult nestedResult
                  (excludeOf (Requirement name purpose rule cnt mn mx [] nested) s)), st2))"
  by simp

text \<open>
  The loop over the children of a branch, as the code runs it: a child that returns the
  no-credentials error is skipped, the loop going on with the state
  \<open>(vpFormat, nestedResult, set)\<close> it had before that child, and any other child error
  ends the whole evaluation with that error. No path of the branch returns the
  no-credentials error; with every child returning it the loop ends in its initial state.
\<close>

lemma branch_children_loop:
  "(\<forall>e. fst (applyRequirement flt st (Requirement name purpose rule cnt mn mx [] nested)) = Inl e
        \<longrightarrow> \<not> errorsIs e ErrNoCredentials)
   \<and> (childrenAllFail flt st nested \<longrightarrow>
        fst (applyRequirement flt st (Requirement name purpose rule cnt mn mx [] nested))
          = Inr (FormatLDPVP, []))
   \<and> (\<forall>rs1 r rs2 acc1 st1 e st2.
        nested = rs1 @ r # rs2
        \<and> applyNested flt st rs1 (FormatLDPVP, [], []) = (Inr acc1, st1)
        \<and> applyRequirement flt st1 r = (Inl e, st2) \<longrightarrow>
        (if errorsIs e ErrNoCredentials
         then applyNested flt st nested (FormatLDPVP, [], []) = applyNested flt st2 rs2 acc1
         else applyRequirement flt st (Requirement name purpose rule cnt mn mx [] nested)
                = (Inl e, st2)))"
proof (intro conjI allI impI)
  fix e
  assume "fst (applyRequirement flt st (Requirement name purpose rule cnt mn mx [] nested)) = Inl e"
  then show "\<not> errorsIs e ErrNoCredentials"
    unfolding applyRequirement_branch
    by (auto split: prod.splits sum.splits dest: applyNested_error)
next
  assume "childrenAllFail flt st nested"
  from applyNested_allFail [OF this, of "(FormatLDPVP, [], [])"]
  show "fst (applyRequirement flt st (Requirement name purpose rule cnt mn mx [] nested))
          = Inr (FormatLDPVP, [])"
    unfolding applyRequirement_branch
    by (auto simp: mergeNestedResult_def)
next
  fix rs1 r rs2 acc1 st1 e st2
  assume h: "nested = rs1 @ r # rs2
        \<and> applyNested flt st rs1 (FormatLDPVP, [], []) = (Inr acc1, st1)
        \<and> applyRequirement flt st1 r = (Inl e, st2)"
  then have step:
    "applyNested flt st nested (FormatLDPVP, [], []) = applyNested flt st1 (r # rs2) acc1"
    using applyNested_append [of flt st rs1 "(FormatLDPVP, [], [])" acc1 st1 "r # rs2"] by simp
  show "if errorsIs e ErrNoCredentials
         then applyNested flt st nested (FormatLDPVP, [], []) = applyNested flt st2 rs2 acc1
         else applyRequirement flt st (Requirement name purpose rule cnt mn mx [] nested)
                = (Inl e, st2)"
    unfolding applyRequirement_branch step using h by simp
qed

text \<open>
  C2 fails on the code. For the single requirement \<open>rule = all, from = B\<close> the builder
  makes a branch over one leaf. No credential matches descriptor \<open>b\<close>, so the leaf returns
  the no-credentials error, and so does the same descriptor evaluated without submission
  requirements; the branch, whose every child returned that error, returns no error but
  the format \<open>ldp_vp\<close> with an empty result, from which the assembler makes a presentation
  without credentials and without descriptor mappings.
\<close>

theorem branch_all_children_fail:
  "makeRequirement [SubmissionRequirement [] [] All_rule 0 0 0 ''B'' []] [exDescA, exDescB]
     = Inr (Requirement [] [] [] 1 0 0 [] [exLeaf [exDescB]])
   \<and> fst (applyRequirement exPipeline 0 (exLeaf [exDescB])) = Inl ErrNoCredentials
   \<and> fst (applyRequirement exPipeline 0 (Requirement [] [] [] 1 0 0 [] [exLeaf [exDescB]]))
       = Inr (FormatLDPVP, [])
   \<and> fst (merge FormatLDPVP [] exStore) = []
   \<and> fst (snd (merge FormatLDPVP [] exStore)) = []
   \<and> makeRequirement [] [exDescB] = Inr (Requirement [] [] [] 1 0 0 [exDescB] [])
   \<and> fst (applyRequirement exPipeline 0 (Requirement [] [] [] 1 0 0 [exDescB] []))
       = Inl ErrNoCredentials"
  by (simp add: makeRequirement_def exLeaf_def exDescA_def exDescB_def exPipeline_def
      All_rule_def isLenApplicable_def mergeNestedResult_def excludeOf_def merge_def)

subsection \<open>Field filter\<close>

lemma filterPaths_char:
  "filterPaths env (f_Filter f) credential paths lastErr =
     (if \<exists>p \<in> set paths. pathStatus env f credential p = None then None
      else if paths = [] then lastErr
      else pathStatus env f credential (last paths))"
proof (induction paths arbitrary: lastErr)
  case Nil
  then show ?case by simp
next
  case (Cons p ps)
  show ?case
  proof (cases "jsonpathGet env p credential")
    case (Inl err)
    then show ?thesis
      using Cons.IH [of "Some ErrPathNotApplicable"]
      by (auto simp: pathStatus_def)
  next
    case (Inr patch)
    show ?thesis
    proof (cases "validatePatch env (f_Filter f) patch")
      case None
      then show ?thesis using Inr by (simp add: pathStatus_def)
    next
      case (Some err)
      then show ?thesis
        using Inr Cons.IH [of "Some err"]
        by (auto simp: pathStatus_def)
    qed
  qed
qed

text \<open>
  C4. The field filter tries the paths in order, carrying the last recorded status: with
  no path left it returns that status; a path with no JSONPath match records
  path-not-applicable and the loop moves on; a matched path whose value validates (it is
  marshalled and the validator accepts it), or any matched path when the field has no
  filter, returns applicable at once; a matched path whose filter fails records that
  failure and the loop moves on. Hence the filter returns
  applicable when some path is applicable, and otherwise the status of the last path.
\<close>

theorem filterField_paths_in_order:
  "filterPaths env schema credential [] lastErr = lastErr
   \<and> (\<forall>path rest err. jsonpathGet env path credential = Inl err \<longrightarrow>
         filterPaths env schema credential (path # rest) lastErr
           = filterPaths env schema credential rest (Some ErrPathNotApplicable))
   \<and> (\<forall>path rest patch.
         jsonpathGet env path credential = Inr patch \<and> validatePatch env schema patch = None \<longrightarrow>
         filterPaths env schema credential (path # rest) lastErr = None)
   \<and> (\<forall>patch. validatePatch env None patch = None)
   \<and> (\<forall>sch patch. validatePatch env (Some sch) patch = None \<longleftrightarrow>
         (\<exists>raw. jsonMarshal env patch = Inr raw \<and> schemaValidate env sch raw = Inr True))
   \<and> (\<forall>path rest patch err.
         jsonpathGet env path credential = Inr patch \<and> validatePatch env schema patch = Some err \<longrightarrow>
         filterPaths env schema credential (path # rest) lastErr
           = filterPaths env schema credential rest (Some err))
   \<and> filterField env f credential =
       (if \<exists>p \<in> set (f_Path f). pathStatus env f credential p = None then None
        else if f_Path f = [] then None
        else pathStatus env f credential (last (f_Path f)))"
  by (auto simp: filterField_def filterPaths_char validatePatch_def split: sum.splits)

theorem filterField_paths_in_order_witness:
  "filterField exFieldEnv (exDegreeField [''$.missing'', ''$.degree'', ''$.other''])
     (JObj [(''$.degree'', JStr ''BachelorDegree''), (''$.other'', JStr ''x'')]) = None
   \<and> filterField exFieldEnv (exDegreeField [''$.degree'', ''$.missing''])
       (JObj [(''$.degree'', JStr ''BachelorDegree'')]) = None
   \<and> filterField exFieldEnv (exDegreeField [''$.degree'', ''$.missing''])
       (JObj [(''$.degree'', JStr ''MasterDegree'')]) = Some ErrPathNotApplicable
   \<and> filterField exFieldEnv (exDegreeField [''$.missing'', ''$.degree''])
       (JObj [(''$.degree'', JNum 3)]) = Some ErrPathNotApplicable"
  using
    filterField_paths_in_order [where env = exFieldEnv
      and f = "exDegreeField [''$.missing'', ''$.degree'', ''$.other'']"
      and credential = "JObj [(''$.degree'', JStr ''BachelorDegree''), (''$.other'', JStr ''x'')]"]
    filterField_paths_in_order [where env = exFieldEnv
      and f = "exDegreeField [''$.degree'', ''$.missing'']"
      and credential = "JObj [(''$.degree'', JStr ''BachelorDegree'')]"]
    filterField_paths_in_order [where env = exFieldEnv
      and f = "exDegreeField [''$.degree'', ''$.missing'']"
      and credential = "JObj [(''$.degree'', JStr ''MasterDegree'')]"]
    filterField_paths_in_order [where env = exFieldEnv
      and f = "exDegreeField [''$.missing'', ''$.degree'']"
      and credential = "JObj [(''$.degree'', JNum 3)]"]
  by (simp add: exFieldEnv_def exDegreeField_def pathStatus_def validatePatch_def)

subsection \<open>Format filter\<close>

lemma credByProof_iff: "credByProof c ldp = inLdpBucket ldp c"
  by (cases ldp) (auto simp: credByProof_def inLdpBucket_def hasProofWithType_def list_ex_iff)

lemma addLdp_buckets:
  "ldpCreds (addLdp format c b) = ldpCreds b @ filter (inLdpBucket (fmt_Ldp format)) [c]"
  "ldpvcCreds (addLdp format c b) = ldpvcCreds b @ filter (inLdpBucket (fmt_LdpVC format)) [c]"
  "ldpvpCreds (addLdp format c b) = ldpvpCreds b @ filter (inLdpBucket (fmt_LdpVP format)) [c]"
  "jwtCreds (addLdp format c b) = jwtCreds b"
  "jwtvcCreds (addLdp format c b) = jwtvcCreds b"
  "jwtvpCreds (addLdp format c b) = jwtvpCreds b"
  by (simp_all add: addLdp_def Let_def credByProof_iff)

lemma addJwt_buckets:
  "ldpCreds (addJwt env format c ah b) = ldpCreds b"
  "ldpvcCreds (addJwt env format c ah b) = ldpvcCreds b"
  "ldpvpCreds (addJwt env format c ah b) = ldpvpCreds b"
  "jwtCreds (addJwt env format c ah b) =
     jwtCreds b @ (if snd ah \<and> algMatch env (fst ah) (fmt_Jwt format) then [c] else [])"
  "jwtvcCreds (addJwt env format c ah b) =
     jwtvcCreds b @ (if snd ah \<and> algMatch env (fst ah) (fmt_JwtVC format) then [c] else [])"
  "jwtvpCreds (addJwt env format c ah b) =
     jwtvpCreds b @ (if snd ah \<and> algMatch env (fst ah) (fmt_JwtVP format) then [c] else [])"
  by (simp_all add: addJwt_def Let_def)

lemma inJwtBucket_noJWT: "vc_JWT c = [] \<Longrightarrow> \<not> inJwtBucket env jwtType c"
  by (simp add: inJwtBucket_def)

lemma inJwtBucket_unparsed:
  "jwtAlgorithm env (vc_JWT c) = Inl err \<Longrightarrow> \<not> inJwtBucket env jwtType c"
  by (simp add: inJwtBucket_def)

lemma inJwtBucket_parsed:
  "vc_JWT c \<noteq> [] \<Longrightarrow> jwtAlgorithm env (vc_JWT c) = Inr ah \<Longrightarrow>
   (snd ah \<and> algMatch env (fst ah) jwtType) = inJwtBucket env jwtType c"
  by (cases jwtType; cases ah) (auto simp: inJwtBucket_def algMatch_def list_ex_iff)

lemma filterFormatLoop_buckets:
  "ldpCreds (filterFormatLoop env format cs b)
     = ldpCreds b @ filter (inLdpBucket (fmt_Ldp format)) cs
   \<and> ldpvcCreds (filterFormatLoop env format cs b)
     = ldpvcCreds b @ filter (inLdpBucket (fmt_LdpVC format)) cs
   \<and> ldpvpCreds (filterFormatLoop env format cs b)
     = ldpvpCreds b @ filter (inLdpBucket (fmt_LdpVP format)) cs
   \<and> jwtCreds (filterFormatLoop env format cs b)
     = jwtCreds b @ filter (inJwtBucket env (fmt_Jwt format)) cs
   \<and> jwtvcCreds (filterFormatLoop env format cs b)
     = jwtvcCreds b @ filter (inJwtBucket env (fmt_JwtVC format)) cs
   \<and> jwtvpCreds (filterFormatLoop env format cs b)
     = jwtvpCreds b @ filter (inJwtBucket env (fmt_JwtVP format)) cs"
proof (induction cs arbitrary: b)
  case Nil
  then show ?case by simp
next
  case (Cons c cs)
  show ?case
  proof (cases "vc_JWT c = []")
    case True
    then show ?thesis
      using Cons.IH [of "addJwt env format c ([], False) (addLdp format c b)"]
      by (simp add: addLdp_buckets addJwt_buckets inJwtBucket_noJWT)
  next
    case False
    show ?thesis
    proof (cases "jwtAlgorithm env (vc_JWT c)")
      case (Inl err)
      then show ?thesis
        using False Cons.IH [of "addLdp format c b"]
        by (simp add: addLdp_buckets inJwtBucket_unparsed)
    next
      case (Inr ah)
      then show ?thesis
        using False Cons.IH [of "addJwt env format c ah (addLdp format c b)"]
        by (simp add: addLdp_buckets addJwt_buckets inJwtBucket_parsed)
    qed
  qed
qed

text \<open>
  C5. The format filter sorts the credentials into the six buckets \<open>ldp\<close>, \<open>ldp_vc\<close>,
  \<open>ldp_vp\<close>, \<open>jwt\<close>, \<open>jwt_vc\<close>, \<open>jwt_vp\<close>, each in input order: a credential is in an
  \<open>ldp*\<close> bucket exactly when one of its proofs has a type listed in that bucket's
  \<open>proof_type\<close>, and in a \<open>jwt*\<close> bucket exactly when it has a JWT form whose \<open>alg\<close> equals,
  up to case, one listed in that bucket's \<open>alg\<close>. It returns the first non-empty bucket in
  that order with its tag, and the empty tag with no credentials when all are empty.
\<close>

theorem filterFormat_first_bucket:
  "filterFormat env format credentials =
     firstNonEmpty
       [(FormatLDP, filter (inLdpBucket (fmt_Ldp format)) credentials),
        (FormatLDPVC, filter (inLdpBucket (fmt_LdpVC format)) credentials),
        (FormatLDPVP, filter (inLdpBucket (fmt_LdpVP format)) credentials),
        (FormatJWT, filter (inJwtBucket env (fmt_Jwt format)) credentials),
        (FormatJWTVC, filter (inJwtBucket env (fmt_JwtVC format)) credentials),
        (FormatJWTVP, filter (inJwtBucket env (fmt_JwtVP format)) credentials)]"
  using filterFormatLoop_buckets [of env format credentials
      "\<lparr>ldpCreds = [], ldpvcCreds = [], ldpvpCreds = [],
        jwtCreds = [], jwtvcCreds = [], jwtvpCreds = []\<rparr>"]
  by (simp add: filterFormat_def firstNonEmpty_def Let_def)

lemma ex_equalFold: "map asciiLower ''es256'' = map asciiLower ''ES256''"
  by code_simp

theorem filterFormat_first_bucket_witness:
  "filterFormat exFormatEnv (exFormat None) [exCredLdp, exCredJwt] = (FormatJWTVC, [exCredJwt])
   \<and> filterFormat exFormatEnv (exFormat (Some \<lparr>lt_ProofType = [''Ed25519Signature2018'']\<rparr>))
       [exCredLdp, exCredJwt] = (FormatLDPVC, [exCredLdp])
   \<and> filterFormat exFormatEnv (exFormat None) [exCredLdp] = ([], [])"
  using
    filterFormat_first_bucket [of exFormatEnv "exFormat None" "[exCredLdp, exCredJwt]"]
    filterFormat_first_bucket [of exFormatEnv
      "exFormat (Some \<lparr>lt_ProofType = [''Ed25519Signature2018'']\<rparr>)" "[exCredLdp, exCredJwt]"]
    filterFormat_first_bucket [of exFormatEnv "exFormat None" "[exCredLdp]"]
    ex_equalFold
  by (simp add: exFormatEnv_def exFormat_def exCredLdp_def exCredJwt_def exCred_def
      inLdpBucket_def inJwtBucket_def firstNonEmpty_def)

subsection \<open>Schema gate\<close>

lemma schemasLoop_char:
  "schemasLoop sat schemas applicable =
     ((\<forall>s \<in> set schemas. sc_Required s \<longrightarrow> sc_URI s \<in> set sat)
      \<and> (applicable \<or> (\<exists>s \<in> set schemas. sc_URI s \<in> set sat)))"
  by (induction schemas arbitrary: applicable) auto

lemma typesLoop_set:
  "getContext env ctx = Inr ctxObj \<Longrightarrow>
   set (typesLoop env ctxObj typs sat)
     = set sat \<union> (\<Union>typ \<in> set typs. set (typeIRIs env ctx typ))"
proof (induction typs arbitrary: sat)
  case Nil
  then show ?case by simp
next
  case (Cons ty typs)
  then show ?case
    by (cases "typeFoundInContext env ty ctxObj") (auto simp: typeIRIs_def)
qed

lemma memoSound_update:
  "memoSound env contexts \<Longrightarrow> getContext env ctx = Inr ctxObj \<Longrightarrow>
   memoSound env (AList.update ctx ctxObj contexts)"
  by (auto simp: memoSound_def update_conv')

lemma contextsLoop_set:
  "memoSound env contexts \<Longrightarrow>
   \<forall>ctx \<in> set ctxs. \<exists>ctxObj. getContext env ctx = Inr ctxObj \<Longrightarrow>
   \<exists>contexts' sat'. contextsLoop env typs ctxs contexts sat = Inr (contexts', sat')
     \<and> memoSound env contexts'
     \<and> set sat' = set sat \<union> (\<Union>ctx \<in> set ctxs. \<Union>typ \<in> set typs. set (typeIRIs env ctx typ))"
proof (induction ctxs arbitrary: contexts sat)
  case Nil
  then show ?case by simp
next
  case (Cons ctx ctxs)
  from Cons.prems(2) obtain ctxObj where g: "getContext env ctx = Inr ctxObj" by auto
  from Cons.prems(2) have rest: "\<forall>ctx \<in> set ctxs. \<exists>ctxObj. getContext env ctx = Inr ctxObj"
    by simp
  show ?case
  proof (cases "map_of contexts ctx")
    case None
    from Cons.IH [OF memoSound_update [OF Cons.prems(1) g] rest,
        of "typesLoop env ctxObj typs sat"]
    show ?thesis
      using None g typesLoop_set [OF g, of typs sat] by auto
  next
    case (Some cached)
    with Cons.prems(1) g have c: "cached = ctxObj" by (auto simp: memoSound_def)
    from Cons.IH [OF Cons.prems(1) rest, of "typesLoop env ctxObj typs sat"]
    show ?thesis
      using Some c typesLoop_set [OF g, of typs sat] by auto
  qed
qed

lemma contextsLoop_fails:
  "memoSound env contexts \<Longrightarrow>
   \<not> (\<forall>ctx \<in> set ctxs. \<exists>ctxObj. getContext env ctx = Inr ctxObj) \<Longrightarrow>
   \<exists>err. contextsLoop env typs ctxs contexts sat = Inl err"
proof (induction ctxs arbitrary: contexts sat)
  case Nil
  then show ?case by simp
next
  case (Cons ctx ctxs)
  show ?case
  proof (cases "getContext env ctx")
    case (Inl err)
    with Cons.prems(1) have "map_of contexts ctx = None"
      by (cases "map_of contexts ctx") (auto simp: memoSound_def)
    with Inl show ?thesis by simp
  next
    case (Inr ctxObj)
    with Cons.prems(2) have rest:
      "\<not> (\<forall>ctx \<in> set ctxs. \<exists>ctxObj. getContext env ctx = Inr ctxObj)" by auto
    show ?thesis
    proof (cases "map_of contexts ctx")
      case None
      from Cons.IH [OF memoSound_update [OF Cons.prems(1) Inr] rest]
      show ?thesis using None Inr by simp
    next
      case (Some cached)
      from Cons.IH [OF Cons.prems(1) rest]
      show ?thesis using Some by simp
    qed
  qed
qed

lemma filterSchemaLoop_filter:
  "memoSound env contexts \<Longrightarrow> contextsLoad env credentials \<Longrightarrow>
   filterSchemaLoop env schemas credentials contexts res
     = res @ filter (schemaAccepts env schemas) credentials"
proof (induction credentials arbitrary: contexts res)
  case Nil
  then show ?case by simp
next
  case (Cons c cs)
  from Cons.prems(2)
  have here: "\<forall>ctx \<in> set (vc_Context c). \<exists>ctxObj. getContext env ctx = Inr ctxObj"
    and rest: "contextsLoad env cs"
    by (auto simp: contextsLoad_def)
  from contextsLoop_set [OF Cons.prems(1) here, of "vc_Types c" "[]"]
  obtain contexts' sat' where
    l: "contextsLoop env (vc_Types c) (vc_Context c) contexts [] = Inr (contexts', sat')"
    and m: "memoSound env contexts'"
    and s: "set sat' = resolvedIRIs env c"
    by (auto simp: resolvedIRIs_def)
  have "schemasLoop sat' schemas False = schemaAccepts env schemas c"
    by (simp add: schemasLoop_char schemaAccepts_def s conj_commute)
  then show ?case
    using l Cons.IH [OF m rest] by simp
qed

lemma filterSchemaLoop_fails:
  "memoSound env contexts \<Longrightarrow> \<not> contextsLoad env credentials \<Longrightarrow>
   filterSchemaLoop env schemas credentials contexts res = []"
proof (induction credentials arbitrary: contexts res)
  case Nil
  then show ?case by (simp add: contextsLoad_def)
next
  case (Cons c cs)
  show ?case
  proof (cases "\<forall>ctx \<in> set (vc_Context c). \<exists>ctxObj. getContext env ctx = Inr ctxObj")
    case True
    with Cons.prems(2) have rest: "\<not> contextsLoad env cs"
      by (auto simp: contextsLoad_def)
    from contextsLoop_set [OF Cons.prems(1) True, of "vc_Types c" "[]"]
    obtain contexts' sat' where
      l: "contextsLoop env (vc_Types c) (vc_Context c) contexts [] = Inr (contexts', sat')"
      and m: "memoSound env contexts'"
      by auto
    show ?thesis
      using l Cons.IH [OF m rest] by simp
  next
    case False
    from contextsLoop_fails [OF Cons.prems(1) False, of "vc_Types c" "[]"]
    show ?thesis by auto
  qed
qed

text \<open>
  C6, as the code has it. When every context of every credential of the call loads, the
  schema gate keeps exactly the credentials for which at least one schema entry's uri,
  required or optional, is among the credential's resolved type IRIs and no entry with
  \<open>required = true\<close> is unmatched. When a context of some credential does not load, the
  gate keeps no credential at all.
\<close>

theorem filterSchema_accepts_iff:
  "(contextsLoad env credentials \<longrightarrow>
      filterSchema env schemas credentials = filter (schemaAccepts env schemas) credentials)
   \<and> (\<not> contextsLoad env credentials \<longrightarrow> filterSchema env schemas credentials = [])"
  using filterSchemaLoop_filter [of env "[]" credentials schemas "[]"]
        filterSchemaLoop_fails [of env "[]" credentials schemas "[]"]
  by (simp add: filterSchema_def memoSound_def)

lemma ex_getContext:
  "getContext exSchemaEnv ''https://example.org/ctx#v1''
     = Inr [(''DegreeCredential'', [(''@id'', JStr ''https://example.org/DegreeCredential'')])]"
  "getContext exSchemaEnv ''https://example.org/missing''
     = Inl (ErrWrap ''loading document'' (ErrOther ''not found''))"
  by (simp_all add: getContext_def exSchemaEnv_def)

lemma ex_resolved:
  "resolvedIRIs exSchemaEnv exCredDegree = {''https://example.org/DegreeCredential''}"
  by (simp add: resolvedIRIs_def typeIRIs_def ex_getContext exCredDegree_def exCred_def)
     (simp add: typeFoundInContext_def exSchemaEnv_def)

theorem filterSchema_accepts_iff_witness:
  "contextsLoad exSchemaEnv [exCredDegree]
   \<and> schemaAccepts exSchemaEnv exSchemas exCredDegree
   \<and> filterSchema exSchemaEnv exSchemas [exCredDegree] = [exCredDegree]
   \<and> \<not> contextsLoad exSchemaEnv [exCredUnknown]
   \<and> filterSchema exSchemaEnv exSchemas [exCredUnknown] = []"
proof -
  have a: "contextsLoad exSchemaEnv [exCredDegree]"
    by (simp add: contextsLoad_def exCredDegree_def exCred_def ex_getContext)
  have b: "schemaAccepts exSchemaEnv exSchemas exCredDegree"
    by (simp add: schemaAccepts_def ex_resolved exSchemas_def)
  have c: "\<not> contextsLoad exSchemaEnv [exCredUnknown]"
    by (simp add: contextsLoad_def exCredUnknown_def exCred_def ex_getContext)
  from filterSchema_accepts_iff [of exSchemaEnv "[exCredDegree]" exSchemas]
       filterSchema_accepts_iff [of exSchemaEnv "[exCredUnknown]" exSchemas] a b c
  show ?thesis by simp
qed

text \<open>
  C6 as stated fails for a credential that shares the call with one whose context does
  not load: its type matches the required schema, and the gate still rejects it.
\<close>

theorem filterSchema_load_failure_counterexample:
  "schemaAccepts exSchemaEnv exSchemas exCredDegree
   \<and> filterSchema exSchemaEnv exSchemas [exCredDegree, exCredUnknown] = []"
proof -
  have "schemaAccepts exSchemaEnv exSchemas exCredDegree"
    by (simp add: schemaAccepts_def ex_resolved exSchemas_def)
  moreover have "filterSchema exSchemaEnv exSchemas [exCredDegree, exCredUnknown] = []"
    by (simp add: filterSchema_def exCredDegree_def exCredUnknown_def exCred_def ex_getContext)
  ultimately show ?thesis by simp
qed

subsection \<open>Transient ids and the assembler\<close>

lemma tmpEnding_nonempty: "tmpEnding \<noteq> []"
  by (simp add: tmpEnding_def)

text \<open>
  The marker starts with its only \<open>t\<close>, so no occurrence of it can begin inside a prefix
  \<open>xs\<close> and end inside a marker appended to \<open>xs\<close>.
\<close>

lemma no_straddle:
  assumes "prefix tmpEnding (xs @ tmpEnding @ u)" and "xs \<noteq> []"
  shows "prefix tmpEnding xs"
proof -
  from assms(1) consider "prefix tmpEnding xs"
    | us where "tmpEnding = xs @ us" "prefix us (tmpEnding @ u)"
    by (auto simp: prefix_append)
  then show ?thesis
  proof cases
    case 1
    then show ?thesis .
  next
    case 2
    show ?thesis
    proof (cases us)
      case Nil
      with 2 show ?thesis by simp
    next
      case (Cons y ys)
      with 2(2) have y: "y = CHR ''t''"
        by (simp add: tmpEnding_def)
      from assms(2) obtain x xs' where xs: "xs = x # xs'" by (cases xs) auto
      have "tl tmpEnding = tl (xs @ us)" by (rule arg_cong [OF 2(1)])
      with xs Cons have "tl tmpEnding = xs' @ y # ys" by simp
      then have "y \<in> set (tl tmpEnding)" by simp
      with y show ?thesis by (simp add: tmpEnding_def)
    qed
  qed
qed

lemma strIndex_marker_appended:
  "strIndex ident tmpEnding = None \<Longrightarrow>
   strIndex (ident @ tmpEnding @ uuid) tmpEnding = Some (length ident)"
proof (induction ident)
  case Nil
  then show ?case by (simp add: tmpEnding_def)
next
  case (Cons c cs)
  from Cons.prems have np: "\<not> prefix tmpEnding (c # cs)"
    and rest: "strIndex cs tmpEnding = None"
    by (simp_all split: if_splits)
  have "\<not> prefix tmpEnding ((c # cs) @ tmpEnding @ uuid)"
    using no_straddle [of "c # cs" uuid] np by blast
  then show ?case
    using Cons.IH [OF rest] by simp
qed

lemma trimTmpID_tmpID:
  "strIndex ident tmpEnding = None \<Longrightarrow> trimTmpID (tmpID ident uuid) = ident"
  by (simp add: trimTmpID_def tmpID_def strIndex_marker_appended)

lemma strIndex_take:
  "sep \<noteq> [] \<Longrightarrow> strIndex s sep = Some i \<Longrightarrow> strIndex (take i s) sep = None"
proof (induction s arbitrary: i)
  case Nil
  then show ?case by simp
next
  case (Cons c cs)
  show ?case
  proof (cases "prefix sep (c # cs)")
    case True
    with Cons.prems show ?thesis by simp
  next
    case False
    with Cons.prems obtain j where j: "strIndex cs sep = Some j" and i: "i = Suc j"
      by auto
    have "prefix (c # take j cs) (c # cs)"
      by (simp add: take_is_prefix)
    with False have "\<not> prefix sep (c # take j cs)"
      using prefix_order.trans by blast
    then show ?thesis
      using Cons.IH [OF Cons.prems(1) j] i by simp
  qed
qed

lemma trimTmpID_marker_free: "strIndex (trimTmpID ident) tmpEnding = None"
  by (cases "strIndex ident tmpEnding")
     (simp_all add: trimTmpID_def strIndex_take tmpEnding_nonempty)

lemma trimTmpID_idem: "trimTmpID (trimTmpID ident) = trimTmpID ident"
  using trimTmpID_marker_free [of ident] by (simp add: trimTmpID_def [of "trimTmpID ident"])

lemma store_trim_again:
  "trimmedIn h st \<Longrightarrow>
   (ms_store st a)\<lparr>vc_ID := trimTmpID (vc_ID (ms_store st a))\<rparr>
     = (h a)\<lparr>vc_ID := trimTmpID (vc_ID (h a))\<rparr>"
  by (cases "a \<in> set (ms_result st)") (auto simp: trimmedIn_def trimTmpID_idem)

lemma mergeCredential_trimmedIn:
  assumes "trimmedIn h st"
  shows "trimmedIn h (mergeCredential fmt d a st)"
proof (cases "map_of (ms_setOfCreds st) (vc_ID (ms_store st a)) = None")
  case True
  then show ?thesis
    using assms store_trim_again [OF assms, of a]
    by (auto simp: trimmedIn_def mergeCredential_def Let_def)
next
  case False
  then show ?thesis
    using assms by (auto simp: trimmedIn_def mergeCredential_def Let_def)
qed

lemma mergeCredentials_trimmedIn:
  "trimmedIn h st \<Longrightarrow> trimmedIn h (mergeCredentials fmt d cs st)"
  by (induction cs arbitrary: st) (auto simp: mergeCredential_trimmedIn)

lemma mergeKeys_trimmedIn:
  "trimmedIn h st \<Longrightarrow> trimmedIn h (mergeKeys fmt m keys st)"
  by (induction keys arbitrary: st) (auto simp: mergeCredentials_trimmedIn)

lemma merge_store:
  "a \<in> set (fst (merge fmt m h)) \<Longrightarrow>
   snd (snd (merge fmt m h)) a = (h a)\<lparr>vc_ID := trimTmpID (vc_ID (h a))\<rparr>"
  using mergeKeys_trimmedIn [of h
      "\<lparr>ms_setOfCreds = [], ms_result = [], ms_descriptors = [], ms_store = h\<rparr>"
      fmt m "sort (remdups (map fst m))"]
  by (simp add: merge_def Let_def trimmedIn_def)

lemma mergeCredential_result_mono:
  "set (ms_result st) \<subseteq> set (ms_result (mergeCredential fmt d a st))"
  by (auto simp: mergeCredential_def Let_def)

lemma mergeCredential_keysEmitted:
  assumes "trimmedIn h st" and "keysEmitted h st"
  shows "keysEmitted h (mergeCredential fmt d a st)"
proof (cases "map_of (ms_setOfCreds st) (vc_ID (ms_store st a)) = None")
  case True
  have id: "trimTmpID (vc_ID (ms_store st a)) = trimTmpID (vc_ID (h a))"
    using assms(1) by (cases "a \<in> set (ms_result st)") (auto simp: trimmedIn_def trimTmpID_idem)
  show ?thesis
    using True assms(2) id
    by (auto simp: keysEmitted_def mergeCredential_def Let_def update_conv')
next
  case False
  then show ?thesis
    using assms(2) by (auto simp: keysEmitted_def mergeCredential_def Let_def)
qed

text \<open>
  After its iteration a credential is emitted for: it was appended, or its id was a key
  of \<open>setOfCreds\<close>, which is the trimmed id of a credential appended before.
\<close>

lemma mergeCredential_emits:
  assumes "trimmedIn h st" and "keysEmitted h st"
  shows "emittedFor h (mergeCredential fmt d a st) a"
proof (cases "map_of (ms_setOfCreds st) (vc_ID (ms_store st a)) = None")
  case True
  then show ?thesis
    by (auto simp: emittedFor_def mergeCredential_def Let_def)
next
  case False
  with assms(2) obtain b where b: "b \<in> set (ms_result st)"
    and k: "trimTmpID (vc_ID (h b)) = vc_ID (ms_store st a)"
    by (auto simp: keysEmitted_def)
  have "trimTmpID (vc_ID (h a)) = vc_ID (ms_store st a)"
  proof (cases "a \<in> set (ms_result st)")
    case True
    with assms(1) show ?thesis by (auto simp: trimmedIn_def)
  next
    case False
    with assms(1) have "ms_store st a = h a" by (auto simp: trimmedIn_def)
    with k show ?thesis by (metis trimTmpID_idem)
  qed
  with b k show ?thesis
    using mergeCredential_result_mono [of st fmt d a]
    by (auto simp: emittedFor_def)
qed

lemma emittedFor_mono:
  "emittedFor h st a \<Longrightarrow> set (ms_result st) \<subseteq> set (ms_result st') \<Longrightarrow> emittedFor h st' a"
  by (auto simp: emittedFor_def)

lemma mergeCredentials_result_mono:
  "set (ms_result st) \<subseteq> set (ms_result (mergeCredentials fmt d cs st))"
proof (induction cs arbitrary: st)
  case Nil
  then show ?case by simp
next
  case (Cons c cs)
  from mergeCredential_result_mono [of st fmt d c] Cons [of "mergeCredential fmt d c st"]
  show ?case by auto
qed

lemma mergeCredentials_keysEmitted:
  "trimmedIn h st \<Longrightarrow> keysEmitted h st \<Longrightarrow> keysEmitted h (mergeCredentials fmt d cs st)"
  by (induction cs arbitrary: st)
     (auto simp: mergeCredential_trimmedIn mergeCredential_keysEmitted)

lemma mergeCredentials_emits:
  "trimmedIn h st \<Longrightarrow> keysEmitted h st \<Longrightarrow> a \<in> set cs \<Longrightarrow>
   emittedFor h (mergeCredentials fmt d cs st) a"
proof (induction cs arbitrary: st)
  case Nil
  then show ?case by simp
next
  case (Cons c cs)
  let ?st1 = "mergeCredential fmt d c st"
  have t: "trimmedIn h ?st1" and k: "keysEmitted h ?st1"
    using Cons.prems by (simp_all add: mergeCredential_trimmedIn mergeCredential_keysEmitted)
  show ?case
  proof (cases "a \<in> set cs")
    case True
    from Cons.IH [OF t k True] show ?thesis by simp
  next
    case False
    with Cons.prems(3) have "a = c" by simp
    with mergeCredential_emits [OF Cons.prems(1,2), of fmt d c]
    have "emittedFor h ?st1 a" by simp
    from emittedFor_mono [OF this mergeCredentials_result_mono [of ?st1 fmt d cs]]
    show ?thesis by simp
  qed
qed

lemma mergeKeys_result_mono:
  "set (ms_result st) \<subseteq> set (ms_result (mergeKeys fmt m keys st))"
proof (induction keys arbitrary: st)
  case Nil
  then show ?case by simp
next
  case (Cons k keys)
  let ?cs = "case map_of m k of None \<Rightarrow> [] | Some cs \<Rightarrow> cs"
  from mergeCredentials_result_mono [of st fmt k ?cs]
       Cons [of "mergeCredentials fmt k ?cs st"]
  show ?case by auto
qed

lemma mergeKeys_keysEmitted:
  "trimmedIn h st \<Longrightarrow> keysEmitted h st \<Longrightarrow> keysEmitted h (mergeKeys fmt m keys st)"
  by (induction keys arbitrary: st)
     (auto simp: mergeCredentials_trimmedIn mergeCredentials_keysEmitted)

lemma mergeKeys_emits:
  "trimmedIn h st \<Longrightarrow> keysEmitted h st \<Longrightarrow> k \<in> set keys \<Longrightarrow> map_of m k = Some cs \<Longrightarrow>
   a \<in> set cs \<Longrightarrow> emittedFor h (mergeKeys fmt m keys st) a"
proof (induction keys arbitrary: st)
  case Nil
  then show ?case by simp
next
  case (Cons k' keys)
  let ?cs = "case map_of m k' of None \<Rightarrow> [] | Some cs \<Rightarrow> cs"
  let ?st1 = "mergeCredentials fmt k' ?cs st"
  have t: "trimmedIn h ?st1" and ke: "keysEmitted h ?st1"
    using Cons.prems by (simp_all add: mergeCredentials_trimmedIn mergeCredentials_keysEmitted)
  show ?case
  proof (cases "k \<in> set keys")
    case True
    from Cons.IH [OF t ke True Cons.prems(4,5)] show ?thesis by simp
  next
    case False
    with Cons.prems(3) have "k = k'" by simp
    with Cons.prems(4,5) have "a \<in> set ?cs" by simp
    from mergeCredentials_emits [OF Cons.prems(1,2) this, of fmt k']
    have "emittedFor h ?st1 a" .
    from emittedFor_mono [OF this mergeKeys_result_mono [of ?st1 fmt m keys]]
    show ?thesis by simp
  qed
qed

lemma merge_emits:
  assumes "map_of m k = Some cs" and "a \<in> set cs"
  shows "\<exists>b \<in> set (fst (merge fmt m h)).
           vc_ID (snd (snd (merge fmt m h)) b) = trimTmpID (vc_ID (h a))"
proof -
  let ?st0 = "\<lparr>ms_setOfCreds = [], ms_result = [], ms_descriptors = [], ms_store = h\<rparr>"
  let ?keys = "sort (remdups (map fst m))"
  have t: "trimmedIn h ?st0" and ke: "keysEmitted h ?st0"
    by (simp_all add: trimmedIn_def keysEmitted_def)
  from assms(1) have "k \<in> set ?keys"
    by (auto dest: map_of_SomeD intro: rev_image_eqI)
  from mergeKeys_emits [OF t ke this assms, of fmt]
  obtain b where b: "b \<in> set (ms_result (mergeKeys fmt m ?keys ?st0))"
    and e: "trimTmpID (vc_ID (h b)) = trimTmpID (vc_ID (h a))"
    by (auto simp: emittedFor_def)
  from b have r: "b \<in> set (fst (merge fmt m h))" by (simp add: merge_def Let_def)
  from merge_store [OF r] e
  have "vc_ID (snd (snd (merge fmt m h)) b) = trimTmpID (vc_ID (h a))" by simp
  with r show ?thesis by (rule rev_bexI)
qed

text \<open>
  C9. For an id that does not contain the marker \<open>tmp_unique_id_\<close>, trimming the id
  that \<open>tmpID\<close> made of it gives the id back, whatever the UUID. The assembler emits
  every credential with the marker-free id: for every credential listed under a
  descriptor of the map it is given, the result holds a credential whose id, in the store
  the assembler leaves, is the trimmed id of that credential; and every credential of the
  result carries there the trimmed form of the id it came with, which contains no marker,
  so one that came with \<open>tmpID ident uuid\<close> is emitted with \<open>ident\<close>.
\<close>

theorem transient_id_roundtrip:
  "(\<not> strContains ident tmpEnding \<longrightarrow> trimTmpID (tmpID ident uuid) = ident)
   \<and> (\<forall>k cs a. map_of m k = Some cs \<and> a \<in> set cs \<longrightarrow>
        (\<exists>b \<in> set (fst (merge fmt m h)).
           vc_ID (snd (snd (merge fmt m h)) b) = trimTmpID (vc_ID (h a))))
   \<and> (\<forall>a \<in> set (fst (merge fmt m h)).
        vc_ID (snd (snd (merge fmt m h)) a) = trimTmpID (vc_ID (h a))
        \<and> \<not> strContains (vc_ID (snd (snd (merge fmt m h)) a)) tmpEnding
        \<and> (\<not> strContains ident tmpEnding \<and> vc_ID (h a) = tmpID ident uuid
             \<longrightarrow> vc_ID (snd (snd (merge fmt m h)) a) = ident))"
proof (intro conjI allI impI ballI)
  assume "\<not> strContains ident tmpEnding"
  then show "trimTmpID (tmpID ident uuid) = ident"
    by (simp add: strContains_def trimTmpID_tmpID)
next
  fix k cs a
  assume "map_of m k = Some cs \<and> a \<in> set cs"
  then show "\<exists>b \<in> set (fst (merge fmt m h)).
      vc_ID (snd (snd (merge fmt m h)) b) = trimTmpID (vc_ID (h a))"
    using merge_emits [of m k cs a fmt h] by simp
next
  fix a
  assume "a \<in> set (fst (merge fmt m h))"
  then show "vc_ID (snd (snd (merge fmt m h)) a) = trimTmpID (vc_ID (h a))"
    by (simp add: merge_store)
next
  fix a
  assume "a \<in> set (fst (merge fmt m h))"
  then show "\<not> strContains (vc_ID (snd (snd (merge fmt m h)) a)) tmpEnding"
    by (simp add: merge_store strContains_def trimTmpID_marker_free)
next
  fix a
  assume "a \<in> set (fst (merge fmt m h))"
    and "\<not> strContains ident tmpEnding \<and> vc_ID (h a) = tmpID ident uuid"
  then show "vc_ID (snd (snd (merge fmt m h)) a) = ident"
    by (simp add: merge_store strContains_def trimTmpID_tmpID)
qed

lemma ex_merge_three:
  "fst (merge FormatLDPVP [(''a'', [0]), (''b'', [1]), (''c'', [2, 0])] exTmpStore) = [0, 1, 2]"
  by code_simp

lemma ex_marker_free:
  "\<not> strContains ''urn:vc:1'' tmpEnding"
  "\<not> strContains ''urn:vc:2'' tmpEnding"
  "\<not> strContains ''urn:vc:3'' tmpEnding"
  by (simp_all add: strContains_def tmpEnding_def)

theorem transient_id_roundtrip_witness:
  "trimTmpID (tmpID ''urn:vc:1'' ''3f2a'') = ''urn:vc:1''
   \<and> vc_ID (exTmpStore 2) = ''urn:vc:3tmp_unique_id_3f2a''
   \<and> fst (merge FormatLDPVP [(''a'', [0]), (''b'', [1]), (''c'', [2, 0])] exTmpStore) = [0, 1, 2]
   \<and> map (\<lambda>a. vc_ID
               (snd (snd (merge FormatLDPVP [(''a'', [0]), (''b'', [1]), (''c'', [2, 0])]
                            exTmpStore)) a))
       [0, 1, 2]
     = [''urn:vc:1'', ''urn:vc:2'', ''urn:vc:3'']"
proof -
  have i: "vc_ID (exTmpStore 0) = tmpID ''urn:vc:1'' ''3f2a''"
    "vc_ID (exTmpStore 1) = tmpID ''urn:vc:2'' ''3f2a''"
    "vc_ID (exTmpStore 2) = tmpID ''urn:vc:3'' ''3f2a''"
    by (simp_all add: exTmpStore_def exCred_def)
  note t = transient_id_roundtrip [where fmt = FormatLDPVP
      and m = "[(''a'', [0]), (''b'', [1]), (''c'', [2, 0])]" and h = exTmpStore
      and uuid = "''3f2a''"]
  from t [where ident = "''urn:vc:1''"] t [where ident = "''urn:vc:2''"]
       t [where ident = "''urn:vc:3''"] ex_merge_three ex_marker_free i
  show ?thesis by (simp add: tmpID_def tmpEnding_def)
qed

text \<open>
  C1 fails on the code. With descriptor \<open>a\<close> matched by the credential at address 0 and
  descriptor \<open>b\<close> by the credentials at addresses 0 and 1, the assembler emits two
  credentials, and the third descriptor mapping points at index 2: \<open>merge\<close> records the
  number of mappings emitted so far, not the position of the credential.
\<close>

theorem merge_index_out_of_range:
  "fst (merge FormatLDPVP [(''a'', [0]), (''b'', [0, 1])] exStore) = [0, 1]
   \<and> map (\<lambda>d. (im_ID d, map_option im_Path (im_PathNested d)))
        (fst (snd (merge FormatLDPVP [(''a'', [0]), (''b'', [0, 1])] exStore)))
     = [(''a'', Some ''$.verifiableCredential[0]''),
        (''b'', Some ''$.verifiableCredential[0]''),
        (''b'', Some ''$.verifiableCredential[2]'')]"
  by code_simp

subsection \<open>Predicate reshaping\<close>











text \<open>A match without array indices is written at its own path.\<close>

lemma getPathLoop_no_index:
  "\<forall>k \<in> set keys. \<exists>v. k = KStr v \<Longrightarrow>
   \<exists>xs. getPathLoop keys (newPath, originalPath, s) = (newPath @ xs, originalPath @ xs, s)"
proof (induction keys arbitrary: newPath originalPath)
  case Nil
  then show ?case by simp
next
  case (Cons k keys)
  from Cons.prems obtain v where k: "k = KStr v" by auto
  from Cons.prems have rest: "\<forall>k \<in> set keys. \<exists>v. k = KStr v" by simp
  from Cons.IH [OF rest, of "newPath @ [v]" "originalPath @ [v]"]
  obtain xs where "getPathLoop keys (newPath @ [v], originalPath @ [v], s)
      = ((newPath @ [v]) @ xs, (originalPath @ [v]) @ xs, s)" by blast
  then have "getPathLoop (k # keys) (newPath, originalPath, s)
      = (newPath @ (v # xs), originalPath @ (v # xs), s)"
    using k by simp
  then show ?case by blast
qed

lemma getPath_no_index:
  "\<forall>k \<in> set keys. \<exists>v. k = KStr v \<Longrightarrow> fst (fst (getPath keys s)) = snd (fst (getPath keys s))"
  using getPathLoop_no_index [of keys "[]" "[]" s]
  by (auto simp: getPath_def)












end
